theory Spec2Isabelle
  imports Complex_Main "HOL-Library.Word" "HOL-Library.Sublist"
begin

section \<open>Strings\<close>

text \<open>
  A JavaScript string is its sequence of UTF-16 code units, and \<open>length\<close> counts code
  units, as \<open>String.prototype.length\<close> does. \<open>ascii\<close> writes a literal.
\<close>

type_synonym code_unit = "16 word"
type_synonym jsstring = "code_unit list"

definition ascii :: "string \<Rightarrow> jsstring" where
  "ascii s = map (\<lambda>c. of_nat (of_char c)) s"

abbreviation LF :: code_unit where "LF \<equiv> 0x0A"
abbreviation CR :: code_unit where "CR \<equiv> 0x0D"

text \<open>
  The code units that \<open>String.prototype.trim\<close> strips and that \<open>\s\<close> matches in a
  regular expression without the \<open>u\<close> flag: the white space and line terminator code
  points of ECMAScript.
\<close>

definition is_ws :: "code_unit \<Rightarrow> bool" where
  "is_ws c =
     (c \<in> {0x09, 0x0A, 0x0B, 0x0C, 0x0D, 0x20, 0xA0, 0x1680, 0x2028, 0x2029, 0x202F, 0x205F,
            0x3000, 0xFEFF} \<or>
      (0x2000 \<le> c \<and> c \<le> 0x200A))"

definition trim :: "jsstring \<Rightarrow> jsstring" where
  "trim s = rev (dropWhile is_ws (rev (dropWhile is_ws s)))"

text \<open>
  \<open>s.substring(a, b)\<close>: both indices are clamped to the length and swapped when the first
  is the larger.
\<close>

definition substring :: "jsstring \<Rightarrow> nat \<Rightarrow> nat \<Rightarrow> jsstring" where
  "substring s a b =
     (let a' = min a (length s); b' = min b (length s)
      in take (max a' b' - min a' b') (drop (min a' b') s))"

text \<open>
  \<open>text.split(/\r?\n/)\<close>: the separator is a line feed, together with the carriage return
  right before it when there is one. A carriage return alone stays in its line. The result
  always has at least one element.
\<close>

fun split_lines :: "jsstring \<Rightarrow> jsstring list" where
  "split_lines [] = [[]]"
| "split_lines [c] = (if c = LF then [[], []] else [[c]])"
| "split_lines (c # d # cs) =
     (if c = LF then [] # split_lines (d # cs)
      else if c = CR \<and> d = LF then [] # split_lines cs
      else (case split_lines (d # cs) of [] \<Rightarrow> [[c]] | l # ls \<Rightarrow> (c # l) # ls))"

text \<open>\<open>s.includes(needle)\<close>, \<open>parts.join(sep)\<close> and the decimal digits of a count.\<close>

fun string_includes :: "jsstring \<Rightarrow> jsstring \<Rightarrow> bool" where
  "string_includes [] needle = (needle = [])"
| "string_includes (c # cs) needle = (prefix needle (c # cs) \<or> string_includes cs needle)"

fun join :: "jsstring \<Rightarrow> jsstring list \<Rightarrow> jsstring" where
  "join sep [] = []"
| "join sep [x] = x"
| "join sep (x # y # ys) = x @ sep @ join sep (y # ys)"

function decimal :: "nat \<Rightarrow> jsstring" where
  "decimal n =
     (if n < 10 then [0x30 + of_nat n] else decimal (n div 10) @ [0x30 + of_nat (n mod 10)])"
  by pat_completeness auto
termination
  by (relation "measure id") auto

declare decimal.simps [simp del]

section \<open>The chunker\<close>

subsection \<open>Line-based chunking\<close>

text \<open>
  The loop of \<open>AIService.chunkByLine\<close> over the lines, with its two variables \<open>chunks\<close>
  and \<open>currentChunk\<close>. The size is a JavaScript number; it is an integer here.
\<close>

fun chunkByLine_loop ::
  "int \<Rightarrow> jsstring list \<Rightarrow> jsstring list \<Rightarrow> jsstring \<Rightarrow> jsstring list \<times> jsstring" where
  "chunkByLine_loop m [] chunks currentChunk = (chunks, currentChunk)"
| "chunkByLine_loop m (line # lines) chunks currentChunk =
     (if int (length (currentChunk @ line)) > m \<and> length currentChunk > 0
      then chunkByLine_loop m lines (chunks @ [trim currentChunk]) ([] @ line @ [LF])
      else chunkByLine_loop m lines chunks (currentChunk @ line @ [LF]))"

definition chunkByLine :: "jsstring \<Rightarrow> int \<Rightarrow> jsstring list" where
  "chunkByLine text maxChunkSize =
     (let lines = split_lines text;
          (chunks, currentChunk) = chunkByLine_loop maxChunkSize lines [] []
      in if length currentChunk > 0 then chunks @ [trim currentChunk] else chunks)"

subsection \<open>The declaration pattern\<close>

text \<open>
  \<open>functionRegex\<close> is
  \<^verbatim>\<open>/(\/\*\*[\s\S]*?\*\/\s*)?(export\s+)?(async\s+)?(function|class|const|let|var)[\s\S]*?(?={)/g\<close>.
  The functions below give, for a text, the length of the match that starts at its first
  code unit, if there is one.

  The alternatives of the keyword group exclude each other at a given position.
\<close>

definition match_keyword :: "jsstring \<Rightarrow> nat option" where
  "match_keyword s =
     (if prefix (ascii ''function'') s then Some 8
      else if prefix (ascii ''class'') s then Some 5
      else if prefix (ascii ''const'') s then Some 5
      else if prefix (ascii ''let'') s then Some 3
      else if prefix (ascii ''var'') s then Some 3
      else None)"

text \<open>
  An optional group \<open>(word\s+)?\<close>: the number of code units it takes. When the word and
  a white space follow, the group takes them and all the white space after; giving some
  back, or skipping a group whose word is there, leaves the next group or the keyword at a
  code unit that none of them starts with, so no other choice can lead to a match.
\<close>

definition match_word_ws :: "string \<Rightarrow> jsstring \<Rightarrow> nat" where
  "match_word_ws w s =
     (let after = drop (length w) s
      in if prefix (ascii w) s \<and> after \<noteq> [] \<and> is_ws (hd after)
         then length w + length (takeWhile is_ws after) else 0)"

text \<open>
  \<open>(export\s+)?(async\s+)?(function|class|const|let|var)[\s\S]*?(?={)\<close>: after the
  keyword the lazy run stops right before the first opening brace, and there is no match
  without one.
\<close>

definition match_declaration :: "jsstring \<Rightarrow> nat option" where
  "match_declaration s =
     (let n1 = match_word_ws ''export'' s; s1 = drop n1 s;
          n2 = match_word_ws ''async'' s1; s2 = drop n2 s1
      in case match_keyword s2 of
           None \<Rightarrow> None
         | Some k \<Rightarrow>
             let rest = drop k s2
             in if 0x7B \<in> set rest
                then Some (n1 + n2 + k + length (takeWhile (\<lambda>c. c \<noteq> 0x7B) rest))
                else None)"

text \<open>
  The rest of the comment group, after \<open>/**\<close>: the lazy run tries each \<open>*/\<close> in turn,
  the nearest first, and goes on to the next one when no declaration follows the white
  space after it.
\<close>

fun match_comment_end :: "jsstring \<Rightarrow> nat option" where
  "match_comment_end [] = None"
| "match_comment_end [c] = None"
| "match_comment_end (c # d # cs) =
     (case (if c = 0x2A \<and> d = 0x2F
            then map_option (\<lambda>n. 2 + length (takeWhile is_ws cs) + n)
                   (match_declaration (dropWhile is_ws cs))
            else None) of
        Some n \<Rightarrow> Some n
      | None \<Rightarrow> map_option Suc (match_comment_end (d # cs)))"

definition match_at :: "jsstring \<Rightarrow> nat option" where
  "match_at s =
     (if prefix (ascii ''/**'') s then map_option (\<lambda>n. 3 + n) (match_comment_end (drop 3 s))
      else match_declaration s)"

text \<open>
  \<open>text.matchAll(functionRegex)\<close>, as the list of the \<open>index\<close> of each match: the
  leftmost match from the current position, then on from the end of that match. A match is
  never empty. \<open>skip\<close> counts the code units still inside the last match.
\<close>

fun matchAll_from :: "nat \<Rightarrow> nat \<Rightarrow> jsstring \<Rightarrow> nat list" where
  "matchAll_from skip pos [] = []"
| "matchAll_from skip pos (c # cs) =
     (if skip > 0 then matchAll_from (skip - 1) (Suc pos) cs
      else case match_at (c # cs) of
             Some n \<Rightarrow> pos # matchAll_from (n - 1) (Suc pos) cs
           | None \<Rightarrow> matchAll_from 0 (Suc pos) cs)"

definition matchAll_index :: "jsstring \<Rightarrow> nat list" where
  "matchAll_index text = matchAll_from 0 0 text"

subsection \<open>Boundary-aware chunking\<close>

text \<open>
  What \<open>AIService.chunkText\<close> does with a trimmed section, in the loop and for the
  remainder: nothing when it is empty, line-based chunking when it is too large, the
  section itself otherwise.
\<close>

definition section_chunks :: "int \<Rightarrow> jsstring \<Rightarrow> jsstring list" where
  "section_chunks maxChunkSize section =
     (if length section > 0
      then (if int (length section) > maxChunkSize then chunkByLine section maxChunkSize
            else [section])
      else [])"

fun boundary_loop ::
  "int \<Rightarrow> jsstring \<Rightarrow> nat list \<Rightarrow> jsstring list \<Rightarrow> nat \<Rightarrow> jsstring list \<times> nat" where
  "boundary_loop m text [] chunks lastIndex = (chunks, lastIndex)"
| "boundary_loop m text (startIndex # matches) chunks lastIndex =
     boundary_loop m text matches
       (if startIndex > lastIndex
        then chunks @ section_chunks m (trim (substring text lastIndex startIndex))
        else chunks)
       startIndex"

definition chunkText :: "jsstring \<Rightarrow> int \<Rightarrow> jsstring list" where
  "chunkText text maxChunkSize =
     (if int (length text) \<le> maxChunkSize then [text]
      else
        let matches = matchAll_index text in
        if length matches > 1 then
          (let (chunks, lastIndex) = boundary_loop maxChunkSize text matches [] 0
           in if lastIndex < length text
              then chunks @ section_chunks maxChunkSize (trim (drop lastIndex text))
              else chunks)
        else chunkByLine text maxChunkSize)"

definition MAX_CHUNK_SIZE :: int where
  "MAX_CHUNK_SIZE = 8000"

section \<open>Records and the outside world\<close>

text \<open>
  \<open>DocumentChunk\<close> of \<open>utils/ai.ts\<close>. A JavaScript number is modelled by a real: no
  rounding, no NaN. The code never computes with an embedding itself: it stores it and
  hands it to \<open>cosineSimilarity\<close> of the \<open>ai\<close> package.
\<close>

record metadata =
  source :: jsstring
  type :: jsstring

record DocumentChunk =
  content :: jsstring
  embedding :: "real list"
  metadata :: metadata

datatype error = ENOENT | EISDIR | SyntaxError | APIError | InvalidArgument

datatype outcome = Returned | Threw error

text \<open>
  The file system as \<open>fs.existsSync\<close>, \<open>fs.readFileSync\<close> and \<open>fs.writeFileSync\<close> see it:
  a path names a file with its text, a directory, or nothing. Reading a directory throws.
  Writing throws when the path names a directory and when the directory that is to hold
  the file does not exist; otherwise it creates the file or replaces its contents. Other
  failures of the disk (permissions, space) are not modelled.
\<close>

datatype fsnode = File jsstring | Directory

type_synonym filesystem = "jsstring \<rightharpoonup> fsnode"

definition existsSync :: "filesystem \<Rightarrow> jsstring \<Rightarrow> bool" where
  "existsSync d p = (d p \<noteq> None)"

definition readFileSync :: "filesystem \<Rightarrow> jsstring \<Rightarrow> error + jsstring" where
  "readFileSync d p =
     (case d p of
        None \<Rightarrow> Inl ENOENT
      | Some Directory \<Rightarrow> Inl EISDIR
      | Some (File data) \<Rightarrow> Inr data)"

text \<open>
  The directory part of a path without repeated or trailing slashes, as \<open>path.dirname\<close>
  gives it: what precedes the last slash, the root when that is nothing, and the current
  directory, written \<open>.\<close>, for a path without a slash.
\<close>

definition dirname :: "jsstring \<Rightarrow> jsstring" where
  "dirname p =
     (if 0x2F \<notin> set p then ascii ''.''
      else
        let d = rev (tl (dropWhile (\<lambda>c. c \<noteq> 0x2F) (rev p)))
        in if d = [] then ascii ''/'' else d)"

definition writeFileSync :: "filesystem \<Rightarrow> jsstring \<Rightarrow> jsstring \<Rightarrow> error + filesystem" where
  "writeFileSync d p data =
     (case d p of
        Some Directory \<Rightarrow> Inl EISDIR
      | _ \<Rightarrow>
          if d (dirname p) = Some Directory then Inr (d(p \<mapsto> File data)) else Inl ENOENT)"

text \<open>
  What the code imports and does not define is a parameter: the embedding call and
  \<open>cosineSimilarity\<close> of the \<open>ai\<close> package (both may throw), \<open>path.extname\<close>,
  \<open>path.join\<close> and \<open>String.prototype.toLowerCase\<close>, and \<open>JSON.stringify\<close> and
  \<open>JSON.parse\<close> on a knowledge base. \<open>JSON_parse\<close> either throws or yields a value of the
  declared type \<open>DocumentChunk[]\<close>; a snapshot that parses to a value of another shape is
  outside the model.
\<close>

record env =
  embed :: "jsstring \<Rightarrow> error + real list"
  cosineSimilarity :: "real list \<Rightarrow> real list \<Rightarrow> error + real"
  extname :: "jsstring \<Rightarrow> jsstring"
  toLowerCase :: "jsstring \<Rightarrow> jsstring"
  path_join :: "jsstring \<Rightarrow> jsstring \<Rightarrow> jsstring"
  JSON_stringify :: "DocumentChunk list \<Rightarrow> jsstring"
  JSON_parse :: "jsstring \<Rightarrow> error + DocumentChunk list"

text \<open>
  The console lines of \<open>saveKnowledgeBase\<close> and \<open>loadKnowledgeBase\<close>, in the order they are
  printed. \<open>FileNotFound\<close> is the line printed with \<open>console.error\<close>, the others are
  printed with \<open>console.log\<close>. Timings and sizes in megabytes are left out of the lines
  that carry them. The console output of the other functions is not modelled.
\<close>

datatype console_line =
    Saving jsstring
  | EmptyNothingToSave
  | SaveStats nat jsstring
  | Loading jsstring
  | FileSize nat
  | LoadStats nat
  | FileNotFound jsstring

text \<open>
  The state the functions act on: the private field \<open>knowledgeBase\<close> of \<open>AIService\<close>, the
  disk and the console.
\<close>

record state =
  knowledgeBase :: "DocumentChunk list"
  fs :: filesystem
  console :: "console_line list"

definition console_log :: "console_line \<Rightarrow> state \<Rightarrow> state" where
  "console_log l st = st\<lparr>console := console st @ [l]\<rparr>"

section \<open>Persistence\<close>

text \<open>
  \<open>AIService.saveKnowledgeBase\<close>: an empty knowledge base prints the warning line and
  returns before anything is written.
\<close>

definition saveKnowledgeBase :: "env \<Rightarrow> jsstring \<Rightarrow> state \<Rightarrow> outcome \<times> state" where
  "saveKnowledgeBase e filePath st =
     (let st1 = console_log (Saving filePath) st in
      if length (knowledgeBase st1) = 0 then (Returned, console_log EmptyNothingToSave st1)
      else
        let data = JSON_stringify e (knowledgeBase st1) in
        case writeFileSync (fs st1) filePath data of
          Inl err \<Rightarrow> (Threw err, st1)
        | Inr d \<Rightarrow>
            (Returned,
             console_log (SaveStats (length (knowledgeBase st1)) filePath) (st1\<lparr>fs := d\<rparr>)))"

text \<open>
  \<open>AIService.loadKnowledgeBase\<close>: the assignment to \<open>this.knowledgeBase\<close> comes after
  \<open>JSON.parse\<close> has returned; the \<open>else\<close> branch prints with \<open>console.error\<close> and returns.
\<close>

definition loadKnowledgeBase :: "env \<Rightarrow> jsstring \<Rightarrow> state \<Rightarrow> outcome \<times> state" where
  "loadKnowledgeBase e filePath st =
     (let st1 = console_log (Loading filePath) st in
      if existsSync (fs st1) filePath then
        case readFileSync (fs st1) filePath of
          Inl err \<Rightarrow> (Threw err, st1)
        | Inr data \<Rightarrow>
            let st2 = console_log (FileSize (length data)) st1 in
            (case JSON_parse e data of
               Inl err \<Rightarrow> (Threw err, st2)
             | Inr kb \<Rightarrow> (Returned, console_log (LoadStats (length kb)) (st2\<lparr>knowledgeBase := kb\<rparr>)))
      else (Returned, console_log (FileNotFound filePath) st1))"

section \<open>Retrieval\<close>

text \<open>
  The filter of \<open>AIService.getRelevantContext\<close>: the file name is the source up to its
  first space, and its lower-cased extension decides; \<open>metadata.type\<close> is not read.
\<close>

definition code_extensions :: "jsstring list" where
  "code_extensions = [ascii ''.ts'', ascii ''.tsx'', ascii ''.js'', ascii ''.jsx'']"

definition isCodeEntry :: "env \<Rightarrow> DocumentChunk \<Rightarrow> bool" where
  "isCodeEntry e doc =
     (let source' = source (metadata doc);
          filename = takeWhile (\<lambda>c. c \<noteq> 0x20) source';
          ext = toLowerCase e (extname e filename)
      in ext \<in> set code_extensions)"

record scored =
  document :: DocumentChunk
  similarity :: real

text \<open>The \<open>map\<close> over the code entries; a similarity that throws ends the call.\<close>

fun score_all :: "env \<Rightarrow> real list \<Rightarrow> DocumentChunk list \<Rightarrow> error + scored list" where
  "score_all e q [] = Inr []"
| "score_all e q (doc # docs) =
     (case cosineSimilarity e q (embedding doc) of
        Inl err \<Rightarrow> Inl err
      | Inr s \<Rightarrow>
          (case score_all e q docs of
             Inl err \<Rightarrow> Inl err
           | Inr rs \<Rightarrow> Inr (\<lparr>document = doc, similarity = s\<rparr> # rs)))"

text \<open>
  \<open>Array.prototype.sort\<close> with a comparison function is stable: of two elements that
  compare equal, the one that came first stays first. For a comparison that is a total
  preorder this fixes the result, and inserting from the right, each element before the
  first one it does not have to follow, computes it.
\<close>

fun insert_by :: "('a \<Rightarrow> 'a \<Rightarrow> real) \<Rightarrow> 'a \<Rightarrow> 'a list \<Rightarrow> 'a list" where
  "insert_by cmp x [] = [x]"
| "insert_by cmp x (y # ys) = (if cmp x y \<le> 0 then x # y # ys else y # insert_by cmp x ys)"

definition sort_by :: "('a \<Rightarrow> 'a \<Rightarrow> real) \<Rightarrow> 'a list \<Rightarrow> 'a list" where
  "sort_by cmp xs = foldr (insert_by cmp) xs []"

definition by_similarity :: "scored \<Rightarrow> scored \<Rightarrow> real" where
  "by_similarity a b = similarity b - similarity a"

text \<open>
  \<open>xs.slice(0, n)\<close> for an integer \<open>n\<close>: a negative end counts from the end of the
  array.
\<close>

definition slice0 :: "int \<Rightarrow> 'a list \<Rightarrow> 'a list" where
  "slice0 n xs = (if n < 0 then take (nat (int (length xs) + n)) xs else take (nat n) xs)"

text \<open>
  The constant \<open>results\<close> of \<open>getRelevantContext\<close>, and the function itself, which
  returns the sentinel for an empty knowledge base and the formatted results otherwise.
\<close>

definition relevantResults ::
  "env \<Rightarrow> DocumentChunk list \<Rightarrow> jsstring \<Rightarrow> int \<Rightarrow> error + scored list" where
  "relevantResults e kb query maxResults =
     (let codeEntries = filter (isCodeEntry e) kb in
      case embed e query of
        Inl err \<Rightarrow> Inl err
      | Inr embedding' \<Rightarrow>
          (case score_all e embedding' codeEntries of
             Inl err \<Rightarrow> Inl err
           | Inr rs \<Rightarrow> Inr (slice0 maxResults (sort_by by_similarity rs))))"

definition format_result :: "scored \<Rightarrow> jsstring" where
  "format_result r =
     ascii ''['' @ source (metadata (document r)) @ ascii ''] '' @ content (document r)"

definition getRelevantContext :: "env \<Rightarrow> state \<Rightarrow> jsstring \<Rightarrow> int \<Rightarrow> error + jsstring" where
  "getRelevantContext e st query maxResults =
     (if length (knowledgeBase st) = 0 then Inr (ascii ''No knowledge base available'')
      else
        case relevantResults e (knowledgeBase st) query maxResults of
          Inl err \<Rightarrow> Inl err
        | Inr results \<Rightarrow> Inr (join [LF, LF] (map format_result results)))"

section \<open>Incremental update\<close>

text \<open>\<open>AIService.determineFileType\<close> and \<open>AIService.addToKnowledgeBase\<close>.\<close>

definition determineFileType :: "jsstring \<Rightarrow> jsstring" where
  "determineFileType extension =
     (if extension = ascii ''.ts'' \<or> extension = ascii ''.tsx'' \<or> extension = ascii ''.js'' \<or>
         extension = ascii ''.jsx'' then ascii ''code''
      else if extension = ascii ''.md'' then ascii ''documentation''
      else if extension = ascii ''.json'' then ascii ''configuration''
      else ascii ''other'')"

definition addToKnowledgeBase ::
  "env \<Rightarrow> jsstring \<Rightarrow> metadata \<Rightarrow> state \<Rightarrow> outcome \<times> state" where
  "addToKnowledgeBase e content' metadata' st =
     (case embed e content' of
        Inl err \<Rightarrow> (Threw err, st)
      | Inr v \<Rightarrow>
          (Returned,
           st\<lparr>knowledgeBase := knowledgeBase st @
                 [\<lparr>content = content', embedding = v, metadata = metadata'\<rparr>]\<rparr>))"

text \<open>
  \<open>WebhookDocUpdateAgent\<close> holds the path of the checked-out repository and the path of
  the snapshot.
\<close>

record agent =
  repoPath :: jsstring
  knowledgeBasePath :: jsstring

definition excluded_path :: "jsstring \<Rightarrow> bool" where
  "excluded_path filePath =
     (string_includes filePath (ascii ''packages/agw-client/src/abis/'') \<or>
      string_includes filePath (ascii ''packages/agw-client/test/'') \<or>
      string_includes filePath (ascii ''packages/web3-react-agw/''))"

definition supported_extensions :: "jsstring list" where
  "supported_extensions =
     [ascii ''.ts'', ascii ''.tsx'', ascii ''.js'', ascii ''.jsx'', ascii ''.md'', ascii ''.json'']"

definition part_source :: "jsstring \<Rightarrow> nat \<Rightarrow> nat \<Rightarrow> jsstring" where
  "part_source filePath i n =
     filePath @ ascii '' (part '' @ decimal (i + 1) @ ascii ''/'' @ decimal n @ ascii '')''"

text \<open>
  The loop over the chunks of a large file: \<open>i\<close> is the index of the next chunk, \<open>n\<close>
  the number of chunks. An embedding that throws leaves the loop with the chunks added so
  far in place.
\<close>

fun add_parts ::
  "env \<Rightarrow> jsstring \<Rightarrow> jsstring \<Rightarrow> jsstring list \<Rightarrow> nat \<Rightarrow> nat \<Rightarrow> state \<Rightarrow> outcome \<times> state" where
  "add_parts e filePath fileType [] i n st = (Returned, st)"
| "add_parts e filePath fileType (chunk # chunks) i n st =
     (case addToKnowledgeBase e chunk \<lparr>source = part_source filePath i n, type = fileType\<rparr> st of
        (Threw err, st') \<Rightarrow> (Threw err, st')
      | (Returned, st') \<Rightarrow> add_parts e filePath fileType chunks (i + 1) n st')"

text \<open>
  The body of the \<open>try\<close> block of \<open>updateKnowledgeBase\<close> for one file: it returns whether
  \<open>updated = true\<close> was reached.
\<close>

definition process_changed_file ::
  "env \<Rightarrow> jsstring \<Rightarrow> jsstring \<Rightarrow> state \<Rightarrow> outcome \<times> state \<times> bool" where
  "process_changed_file e fullPath filePath st =
     (case readFileSync (fs st) fullPath of
        Inl err \<Rightarrow> (Threw err, st, False)
      | Inr content' \<Rightarrow>
          let ext = toLowerCase e (extname e filePath) in
          if ext \<in> set supported_extensions then
            let fileType = determineFileType ext in
            (case (if int (length content') > MAX_CHUNK_SIZE
                   then (let chunks = chunkText content' MAX_CHUNK_SIZE
                         in add_parts e filePath fileType chunks 0 (length chunks) st)
                   else addToKnowledgeBase e content' \<lparr>source = filePath, type = fileType\<rparr> st) of
               (Threw err, st') \<Rightarrow> (Threw err, st', False)
             | (Returned, st') \<Rightarrow> (Returned, st', True))
          else (Returned, st, False))"

text \<open>
  One round of the loop over the changed files, on the knowledge-base state and the
  variable \<open>updated\<close>. The \<open>catch\<close> only prints, so a throw inside the \<open>try\<close> block keeps
  the state reached and leaves \<open>updated\<close> as it was.
\<close>

definition update_file :: "env \<Rightarrow> agent \<Rightarrow> jsstring \<Rightarrow> state \<times> bool \<Rightarrow> state \<times> bool" where
  "update_file e a filePath acc =
     (let (st, updated) = acc in
      if excluded_path filePath then (st, updated)
      else
        let fullPath = path_join e (repoPath a) filePath in
        if existsSync (fs st) fullPath then
          (case process_changed_file e fullPath filePath st of
             (Threw err, st', u) \<Rightarrow> (st', updated)
           | (Returned, st', u) \<Rightarrow> (st', updated \<or> u))
        else (st, updated))"

fun update_loop :: "env \<Rightarrow> agent \<Rightarrow> jsstring list \<Rightarrow> state \<times> bool \<Rightarrow> state \<times> bool" where
  "update_loop e a [] acc = acc"
| "update_loop e a (filePath # changedFiles) acc =
     update_loop e a changedFiles (update_file e a filePath acc)"

text \<open>\<open>WebhookDocUpdateAgent.updateKnowledgeBase\<close>.\<close>

definition updateKnowledgeBase :: "env \<Rightarrow> agent \<Rightarrow> jsstring list \<Rightarrow> state \<Rightarrow> outcome \<times> state" where
  "updateKnowledgeBase e a changedFiles st =
     (if \<not> existsSync (fs st) (repoPath a) then (Returned, st)
      else
        let (st', updated) = update_loop e a changedFiles (st, False) in
        if updated then saveKnowledgeBase e (knowledgeBasePath a) st' else (Returned, st'))"

section \<open>Fixtures\<close>

text \<open>
  A concrete environment, concrete texts and concrete states, for evaluating the functions
  at given inputs. The stand-ins for the runtime are simple: the extension is the text from
  the last dot, lower-casing acts on the Latin capitals, the similarity is the cosine over
  the reals, the embedding rejects the empty text, and the snapshot codec is a table of
  three knowledge bases and their texts.
\<close>

definition sample_text :: jsstring where
  "sample_text = ascii ''aa'' @ [LF] @ ascii ''bbbbbbb'' @ [LF] @ ascii '' c'' @ [LF] @ ascii ''d''"

definition sample_declaration :: jsstring where
  "sample_declaration = ascii ''let x = {'' @ [LF] @ ascii ''  a: 1 }''"

definition cut_text :: jsstring where
  "cut_text = ascii ''let a{x}let b{y}''"

definition boundary_text :: jsstring where
  "boundary_text = ascii ''x;let a{};var b{}''"

definition chunk_a :: DocumentChunk where
  "chunk_a = \<lparr>content = ascii ''let a'', embedding = [1, 0],
              metadata = \<lparr>source = ascii ''a.ts'', type = ascii ''code''\<rparr>\<rparr>"

definition chunk_b :: DocumentChunk where
  "chunk_b = \<lparr>content = ascii ''let b'', embedding = [1, 0],
              metadata = \<lparr>source = ascii ''b.ts'', type = ascii ''code''\<rparr>\<rparr>"

definition chunk_c :: DocumentChunk where
  "chunk_c = \<lparr>content = ascii ''var c'', embedding = [0, 1],
              metadata = \<lparr>source = ascii ''c.TSX (part 1/2)'', type = ascii ''other''\<rparr>\<rparr>"

definition chunk_doc :: DocumentChunk where
  "chunk_doc = \<lparr>content = ascii ''# a'', embedding = [1, 0],
                metadata = \<lparr>source = ascii ''README.md'', type = ascii ''code''\<rparr>\<rparr>"

definition snapshot_text :: jsstring where
  "snapshot_text = ascii ''[a, b]''"

definition snapshot_path :: jsstring where
  "snapshot_path = ascii ''data/kb.json''"

definition dot :: "real list \<Rightarrow> real list \<Rightarrow> real" where
  "dot u v = sum_list (map2 (*) u v)"

definition cosine :: "real list \<Rightarrow> real list \<Rightarrow> error + real" where
  "cosine u v =
     (if length u \<noteq> length v then Inl InvalidArgument
      else Inr (dot u v / (sqrt (dot u u) * sqrt (dot v v))))"

definition fixture_env :: env where
  "fixture_env =
     \<lparr>embed = (\<lambda>s. if s = [] then Inl APIError else Inr [1, 0]),
      cosineSimilarity = cosine,
      extname = (\<lambda>p. if 0x2E \<in> set p then 0x2E # rev (takeWhile (\<lambda>c. c \<noteq> 0x2E) (rev p))
                      else []),
      toLowerCase = map (\<lambda>c. if 0x41 \<le> c \<and> c \<le> 0x5A then c + 0x20 else c),
      path_join = (\<lambda>d p. d @ [0x2F] @ p),
      JSON_stringify =
        (\<lambda>kb. if kb = [chunk_a, chunk_b] then snapshot_text
              else if kb = [chunk_b, chunk_a] then ascii ''[b, a]''
              else if kb = [chunk_b] then ascii ''[b]''
              else ascii ''[]''),
      JSON_parse =
        (\<lambda>s. if s = snapshot_text then Inr [chunk_a, chunk_b]
             else if s = ascii ''[b, a]'' then Inr [chunk_b, chunk_a]
             else if s = ascii ''[b]'' then Inr [chunk_b]
             else if s = ascii ''[]'' then Inr []
             else Inl SyntaxError)\<rparr>"

definition loaded_state :: state where
  "loaded_state = \<lparr>knowledgeBase = [chunk_a, chunk_b], fs = Map.empty, console = []\<rparr>"

definition stale_state :: state where
  "stale_state =
     \<lparr>knowledgeBase = [chunk_b],
      fs = [snapshot_path \<mapsto> File (ascii ''[a, b'')],
      console = []\<rparr>"

definition data_state :: state where
  "data_state =
     \<lparr>knowledgeBase = [chunk_a, chunk_b],
      fs = [ascii ''data'' \<mapsto> Directory, snapshot_path \<mapsto> File (ascii ''[b]'')],
      console = []\<rparr>"

definition fixture_agent :: agent where
  "fixture_agent = \<lparr>repoPath = ascii ''repo'', knowledgeBasePath = snapshot_path\<rparr>"

definition repo_state :: state where
  "repo_state =
     \<lparr>knowledgeBase = [chunk_b],
      fs = [ascii ''repo'' \<mapsto> Directory, ascii ''repo/a.ts'' \<mapsto> File (ascii ''let a''),
            ascii ''data'' \<mapsto> Directory],
      console = []\<rparr>"

definition fixture_kb :: "DocumentChunk list" where
  "fixture_kb = [chunk_doc, chunk_a, chunk_c, chunk_b]"

definition scored_a :: scored where "scored_a = \<lparr>document = chunk_a, similarity = 1\<rparr>"
definition scored_b :: scored where "scored_b = \<lparr>document = chunk_b, similarity = 1\<rparr>"
definition scored_c :: scored where "scored_c = \<lparr>document = chunk_c, similarity = 0\<rparr>"

definition wallet :: jsstring where "wallet = ascii ''wallet''"

definition gone_path :: jsstring where "gone_path = ascii ''gone.ts''"
definition a_path :: jsstring where "a_path = ascii ''a.ts''"

section \<open>Auxiliary notions\<close>

text \<open>A text without its white space.\<close>

definition non_whitespace :: "jsstring \<Rightarrow> jsstring" where
  "non_whitespace s = filter (\<lambda>c. \<not> is_ws c) s"

text \<open>
  The invariant of the loop of \<open>chunkByLine\<close> over the lines \<open>L\<close>: a finished chunk is
  within the size or is one trimmed line that alone exceeds it; the buffer is empty, or
  ends with the line feed added last and is, without it, within the size or one line.
\<close>

definition chunk_ok :: "int \<Rightarrow> jsstring set \<Rightarrow> jsstring \<Rightarrow> bool" where
  "chunk_ok m L c = (int (length c) \<le> m \<or> (\<exists>line\<in>L. int (length line) > m \<and> c = trim line))"

definition buffer_ok :: "int \<Rightarrow> jsstring set \<Rightarrow> jsstring \<Rightarrow> bool" where
  "buffer_ok m L cc = (cc = [] \<or> (\<exists>x. cc = x @ [LF] \<and> (int (length x) \<le> m \<or> x \<in> L)))"

text \<open>
  The trimmed spans that the loop of \<open>chunkText\<close> over the matches and the step after
  it cut from the text, the empty ones included, and the sections the chunker works on:
  the spans that are not empty when the pattern matches more than once, the whole text
  otherwise.
\<close>

fun boundary_sections :: "jsstring \<Rightarrow> nat list \<Rightarrow> nat \<Rightarrow> jsstring list" where
  "boundary_sections text [] lastIndex =
     (if lastIndex < length text then [trim (drop lastIndex text)] else [])"
| "boundary_sections text (startIndex # matches) lastIndex =
     (if startIndex > lastIndex then [trim (substring text lastIndex startIndex)] else []) @
     boundary_sections text matches startIndex"

definition sections :: "jsstring \<Rightarrow> jsstring list" where
  "sections text =
     (if length (matchAll_index text) > 1
      then filter (\<lambda>sec. length sec > 0) (boundary_sections text (matchAll_index text) 0)
      else [text])"

text \<open>
  What a run of the update loop may do to a state: the disk and the console stay, and the
  knowledge base grows at its end by chunks whose source starts with a path of \<open>P\<close>.
\<close>

definition added_from :: "jsstring set \<Rightarrow> state \<Rightarrow> state \<Rightarrow> bool" where
  "added_from P st st' =
     (fs st' = fs st \<and> console st' = console st \<and>
      (\<exists>added. knowledgeBase st' = knowledgeBase st @ added \<and>
               (\<forall>c\<in>set added. \<exists>p\<in>P. prefix p (source (metadata c)))))"

section \<open>Properties of the chunker\<close>

lemma is_ws_LF [simp]: "is_ws LF"
  by (simp add: is_ws_def)

lemma is_ws_CR [simp]: "is_ws CR"
  by (simp add: is_ws_def)

lemma trim_sublist: "sublist (trim s) s"
proof -
  have "sublist (rev (dropWhile is_ws (rev (dropWhile is_ws s)))) (dropWhile is_ws s)"
    by (simp add: sublist_rev_left)
  moreover have "sublist (dropWhile is_ws s) s" by simp
  ultimately show ?thesis
    unfolding trim_def by (rule sublist_order.order_trans)
qed

lemma length_trim: "length (trim s) \<le> length s"
  using trim_sublist by (rule sublist_length_le)

lemma dropWhile_all: "(\<And>d. d \<in> set xs \<Longrightarrow> P d) \<Longrightarrow> dropWhile P xs = []"
  by (induction xs) auto

lemma trim_snoc_ws:
  assumes c: "is_ws c"
  shows "trim (x @ [c]) = trim x"
proof (cases "\<forall>d\<in>set x. is_ws d")
  case True
  then have "dropWhile is_ws (x @ [c]) = []" "dropWhile is_ws x = []"
    using c by (auto intro!: dropWhile_all)
  then show ?thesis by (simp only: trim_def rev.simps dropWhile.simps)
next
  case False
  then obtain d where "d \<in> set x" "\<not> is_ws d" by blast
  then have "dropWhile is_ws (x @ [c]) = dropWhile is_ws x @ [c]"
    by (rule dropWhile_append1)
  with c show ?thesis by (simp add: trim_def)
qed

lemma filter_dropWhile_neg: "filter (\<lambda>c. \<not> P c) (dropWhile P xs) = filter (\<lambda>c. \<not> P c) xs"
  by (induction xs) auto

lemma non_whitespace_trim: "non_whitespace (trim s) = non_whitespace s"
proof -
  have "filter (\<lambda>c. \<not> is_ws c) (rev (dropWhile is_ws (rev (dropWhile is_ws s))))
      = rev (filter (\<lambda>c. \<not> is_ws c) (dropWhile is_ws (rev (dropWhile is_ws s))))"
    by (simp add: rev_filter)
  also have "\<dots> = rev (filter (\<lambda>c. \<not> is_ws c) (rev (dropWhile is_ws s)))"
    by (simp only: filter_dropWhile_neg)
  also have "\<dots> = filter (\<lambda>c. \<not> is_ws c) (dropWhile is_ws s)"
    by (simp add: rev_filter)
  also have "\<dots> = filter (\<lambda>c. \<not> is_ws c) s"
    by (rule filter_dropWhile_neg)
  finally show ?thesis by (simp add: non_whitespace_def trim_def)
qed

lemma non_whitespace_append: "non_whitespace (a @ b) = non_whitespace a @ non_whitespace b"
  by (simp add: non_whitespace_def)

lemma split_lines_not_Nil: "split_lines t \<noteq> []"
  by (induction t rule: split_lines.induct) (auto split: list.splits)

lemma split_lines_other:
  "c \<noteq> LF \<Longrightarrow> \<not> (c = CR \<and> d = LF) \<Longrightarrow>
   split_lines (c # d # cs) = (c # hd (split_lines (d # cs))) # tl (split_lines (d # cs))"
  using split_lines_not_Nil [of "d # cs"] by (auto split: list.splits)

lemma split_lines_join:
  "non_whitespace (concat (map (\<lambda>l. l @ [LF]) (split_lines t))) = non_whitespace t"
proof (induction t rule: split_lines.induct)
  case 1
  show ?case by (simp add: non_whitespace_def)
next
  case (2 c)
  show ?case by (simp add: non_whitespace_def)
next
  case (3 c d cs)
  obtain l ls where s: "split_lines (d # cs) = l # ls"
    using split_lines_not_Nil [of "d # cs"] by (cases "split_lines (d # cs)") auto
  show ?case
  proof (cases "c = LF")
    case True
    then have "split_lines (c # d # cs) = [] # split_lines (d # cs)" by simp
    with 3(1) [OF True] True show ?thesis by (simp add: non_whitespace_def)
  next
    case nl: False
    show ?thesis
    proof (cases "c = CR \<and> d = LF")
      case True
      then have "split_lines (c # d # cs) = [] # split_lines cs" by simp
      with 3(2) [OF nl True] True show ?thesis by (simp add: non_whitespace_def)
    next
      case False
      have "split_lines (c # d # cs) = (c # l) # ls"
        using split_lines_other [OF nl False] s by simp
      with 3(3) [OF nl False] s show ?thesis by (simp add: non_whitespace_def)
    qed
  qed
qed

lemma split_lines_hd_prefix: "prefix (hd (split_lines t)) t"
proof (induction t rule: split_lines.induct)
  case 1
  show ?case by simp
next
  case (2 c)
  show ?case by simp
next
  case (3 c d cs)
  show ?case
  proof (cases "c = LF \<or> (c = CR \<and> d = LF)")
    case True
    then show ?thesis by auto
  next
    case False
    then have nl: "c \<noteq> LF" and cr: "\<not> (c = CR \<and> d = LF)" by auto
    show ?thesis
      using split_lines_other [OF nl cr] 3(3) [OF nl cr] by simp
  qed
qed

lemma split_lines_line:
  "l \<in> set (split_lines t) \<Longrightarrow> sublist l t \<and> LF \<notin> set l"
proof (induction t arbitrary: l rule: split_lines.induct)
  case 1
  then show ?case by simp
next
  case (2 c)
  then show ?case by (auto split: if_splits)
next
  case (3 c d cs)
  obtain h ls where s: "split_lines (d # cs) = h # ls"
    using split_lines_not_Nil [of "d # cs"] by (cases "split_lines (d # cs)") auto
  show ?case
  proof (cases "c = LF")
    case True
    with "3.prems" have "l = [] \<or> l \<in> set (split_lines (d # cs))" by simp
    with 3(1) [OF True] show ?thesis
      by (auto simp: sublist_Cons_right)
  next
    case nl: False
    show ?thesis
    proof (cases "c = CR \<and> d = LF")
      case True
      with nl "3.prems" have "l = [] \<or> l \<in> set (split_lines cs)" by simp
      with 3(2) [OF nl True] show ?thesis
        by (auto simp: sublist_Cons_right)
    next
      case False
      have "split_lines (c # d # cs) = (c # h) # ls"
        using split_lines_other [OF nl False] s by simp
      with "3.prems" have "l = c # h \<or> l \<in> set ls" by simp
      then show ?thesis
      proof
        assume l: "l = c # h"
        have h: "LF \<notin> set h"
          using 3(3) [OF nl False, of h] s by simp
        have "prefix h (d # cs)"
          using split_lines_hd_prefix [of "d # cs"] s by simp
        then have "prefix l (c # d # cs)" using l by simp
        then show ?thesis using l h nl by (auto simp del: prefix_Cons)
      next
        assume "l \<in> set ls"
        then have "l \<in> set (split_lines (d # cs))" using s by simp
        then have "sublist l (d # cs) \<and> LF \<notin> set l" using 3(3) [OF nl False] by simp
        then show ?thesis by (simp add: sublist_Cons_right)
      qed
    qed
  qed
qed


lemma buffer_ok_trim: "buffer_ok m L cc \<Longrightarrow> cc \<noteq> [] \<Longrightarrow> chunk_ok m L (trim cc)"
proof -
  assume "buffer_ok m L cc" "cc \<noteq> []"
  then obtain x where x: "cc = x @ [LF]" "int (length x) \<le> m \<or> x \<in> L"
    by (auto simp: buffer_ok_def)
  have t: "trim cc = trim x" using x(1) by (simp add: trim_snoc_ws)
  show ?thesis
  proof (cases "int (length x) \<le> m")
    case True
    then have "int (length (trim x)) \<le> m" using length_trim [of x] by linarith
    then show ?thesis by (simp add: chunk_ok_def t)
  next
    case False
    with x(2) have "x \<in> L" "int (length x) > m" by auto
    then have "\<exists>line\<in>L. int (length line) > m \<and> trim cc = trim line"
      using t by blast
    then show ?thesis by (simp add: chunk_ok_def)
  qed
qed

lemma chunkByLine_loop_flush:
  "int (length (cc @ line)) > m \<and> length cc > 0 \<Longrightarrow>
   chunkByLine_loop m (line # lines) chunks cc =
     chunkByLine_loop m lines (chunks @ [trim cc]) (line @ [LF])"
  by simp

lemma chunkByLine_loop_keep:
  "\<not> (int (length (cc @ line)) > m \<and> length cc > 0) \<Longrightarrow>
   chunkByLine_loop m (line # lines) chunks cc =
     chunkByLine_loop m lines chunks (cc @ line @ [LF])"
  by auto

lemma chunkByLine_loop_bounded:
  "set lines \<subseteq> L \<Longrightarrow> \<forall>c\<in>set chunks. chunk_ok m L c \<Longrightarrow> buffer_ok m L cc \<Longrightarrow>
   chunkByLine_loop m lines chunks cc = (chunks', cc') \<Longrightarrow>
   (\<forall>c\<in>set chunks'. chunk_ok m L c) \<and> buffer_ok m L cc'"
proof (induction lines arbitrary: chunks cc)
  case Nil
  then show ?case by simp
next
  case (Cons line lines)
  have line: "line \<in> L" and rest: "set lines \<subseteq> L" using Cons.prems(1) by auto
  have fresh: "buffer_ok m L (line @ [LF])"
    using line by (simp add: buffer_ok_def)
  show ?case
  proof (cases "int (length (cc @ line)) > m \<and> length cc > 0")
    case True
    then have "chunk_ok m L (trim cc)"
      using buffer_ok_trim [OF Cons.prems(3)] by simp
    then have "\<forall>c\<in>set (chunks @ [trim cc]). chunk_ok m L c"
      using Cons.prems(2) by simp
    moreover have "chunkByLine_loop m lines (chunks @ [trim cc]) (line @ [LF]) = (chunks', cc')"
      using Cons.prems(4) chunkByLine_loop_flush [OF True] by simp
    ultimately show ?thesis
      using Cons.IH [OF rest _ fresh] by blast
  next
    case False
    then have "buffer_ok m L (cc @ line @ [LF])"
      using fresh by (cases "cc = []") (auto simp: buffer_ok_def)
    moreover have "chunkByLine_loop m lines chunks (cc @ line @ [LF]) = (chunks', cc')"
      using Cons.prems(4) chunkByLine_loop_keep [OF False] by simp
    ultimately show ?thesis
      using Cons.IH [OF rest Cons.prems(2)] by blast
  qed
qed

lemma chunkByLine_bounded:
  "c \<in> set (chunkByLine text m) \<Longrightarrow> chunk_ok m (set (split_lines text)) c"
proof -
  assume c: "c \<in> set (chunkByLine text m)"
  obtain chunks cc where l: "chunkByLine_loop m (split_lines text) [] [] = (chunks, cc)"
    by (cases "chunkByLine_loop m (split_lines text) [] []") auto
  have inv: "(\<forall>c\<in>set chunks. chunk_ok m (set (split_lines text)) c) \<and>
             buffer_ok m (set (split_lines text)) cc"
    by (rule chunkByLine_loop_bounded [OF _ _ _ l]) (simp_all add: buffer_ok_def)
  show ?thesis
  proof (cases "cc = []")
    case True
    with c l inv show ?thesis by (simp add: chunkByLine_def)
  next
    case False
    with c l have "c \<in> set chunks \<or> c = trim cc" by (auto simp: chunkByLine_def)
    with inv buffer_ok_trim [OF _ False] show ?thesis by blast
  qed
qed

lemma chunkByLine_loop_content:
  "chunkByLine_loop m lines chunks cc = (chunks', cc') \<Longrightarrow>
   non_whitespace (concat chunks' @ cc') =
     non_whitespace (concat chunks @ cc @ concat (map (\<lambda>l. l @ [LF]) lines))"
proof (induction lines arbitrary: chunks cc)
  case Nil
  then show ?case by simp
next
  case (Cons line lines)
  show ?case
  proof (cases "int (length (cc @ line)) > m \<and> length cc > 0")
    case True
    then have "chunkByLine_loop m lines (chunks @ [trim cc]) (line @ [LF]) = (chunks', cc')"
      using Cons.prems chunkByLine_loop_flush [OF True] by simp
    from Cons.IH [OF this] show ?thesis
      by (simp add: non_whitespace_append non_whitespace_trim)
  next
    case False
    then have "chunkByLine_loop m lines chunks (cc @ line @ [LF]) = (chunks', cc')"
      using Cons.prems chunkByLine_loop_keep [OF False] by simp
    from Cons.IH [OF this] show ?thesis
      by (simp add: non_whitespace_append)
  qed
qed

lemma chunkByLine_content: "non_whitespace (concat (chunkByLine text m)) = non_whitespace text"
proof -
  obtain chunks cc where l: "chunkByLine_loop m (split_lines text) [] [] = (chunks, cc)"
    by (cases "chunkByLine_loop m (split_lines text) [] []") auto
  have "non_whitespace (concat (chunkByLine text m)) = non_whitespace (concat chunks @ cc)"
    using l by (cases "cc = []")
      (simp_all add: chunkByLine_def non_whitespace_append non_whitespace_trim)
  also have "\<dots> = non_whitespace (concat (map (\<lambda>l. l @ [LF]) (split_lines text)))"
    using chunkByLine_loop_content [OF l] by simp
  also have "\<dots> = non_whitespace text" by (rule split_lines_join)
  finally show ?thesis .
qed

lemma substring_sublist: "sublist (substring s a b) s"
proof -
  have "sublist (take n (drop k s)) (drop k s)" for n k by simp
  then have "sublist (take n (drop k s)) s" for n k
    by (meson sublist_drop sublist_order.order_trans)
  then show ?thesis by (simp add: substring_def Let_def)
qed

lemma trim_substring_sublist: "sublist (trim (substring s a b)) s"
  by (meson trim_sublist substring_sublist sublist_order.order_trans)

lemma trim_drop_sublist: "sublist (trim (drop n s)) s"
  by (meson trim_sublist sublist_drop sublist_order.order_trans)

lemma section_chunks_Nil: "section_chunks m [] = []"
  by (simp add: section_chunks_def)

lemma boundary_loop_sections:
  "boundary_loop m text matches chunks lastIndex = (chunks', lastIndex') \<Longrightarrow>
   chunks' @ (if lastIndex' < length text
              then section_chunks m (trim (drop lastIndex' text)) else []) =
   chunks @ concat (map (section_chunks m) (boundary_sections text matches lastIndex))"
proof (induction matches arbitrary: chunks lastIndex)
  case Nil
  then show ?case by simp
next
  case (Cons startIndex matches)
  let ?chunks = "if startIndex > lastIndex
        then chunks @ section_chunks m (trim (substring text lastIndex startIndex))
        else chunks"
  have "boundary_loop m text matches ?chunks startIndex = (chunks', lastIndex')"
    using Cons.prems by simp
  from Cons.IH [OF this] show ?case by simp
qed

lemma concat_section_chunks:
  "concat (map (section_chunks m) secs) =
   concat (map (\<lambda>sec. if int (length sec) > m then chunkByLine sec m else [sec])
             (filter (\<lambda>sec. length sec > 0) secs))"
  by (induction secs) (simp_all add: section_chunks_def)

lemma chunkText_sections:
  assumes "\<not> int (length text) \<le> m"
  shows "chunkText text m =
         concat (map (\<lambda>sec. if int (length sec) > m then chunkByLine sec m else [sec])
                   (sections text))"
proof (cases "length (matchAll_index text) > 1")
  case False
  with assms show ?thesis by (simp add: chunkText_def sections_def)
next
  case True
  obtain chunks lastIndex where
    l: "boundary_loop m text (matchAll_index text) [] 0 = (chunks, lastIndex)"
    by (cases "boundary_loop m text (matchAll_index text) [] 0") auto
  have "chunkText text m =
        chunks @ (if lastIndex < length text
                  then section_chunks m (trim (drop lastIndex text)) else [])"
    using assms True l by (simp add: chunkText_def)
  also have "\<dots> = concat (map (section_chunks m)
                        (boundary_sections text (matchAll_index text) 0))"
    using boundary_loop_sections [OF l] by simp
  finally show ?thesis
    using True by (simp add: concat_section_chunks sections_def)
qed

lemma boundary_sections_sublist:
  "sec \<in> set (boundary_sections text matches lastIndex) \<Longrightarrow> sublist sec text"
  by (induction matches arbitrary: lastIndex)
     (auto simp: trim_substring_sublist trim_drop_sublist split: if_splits)

lemma sections_sublist: "sec \<in> set (sections text) \<Longrightarrow> sublist sec text"
  by (auto simp: sections_def dest: boundary_sections_sublist split: if_splits)

text \<open>
  A line that alone exceeds the size is flushed on its own: what the loop does with such a
  line in the buffer and with such lines still to come.
\<close>

lemma chunkByLine_loop_emits:
  "chunkByLine_loop m lines chunks cc = (chunks', cc') \<Longrightarrow>
   set chunks \<subseteq> set chunks' \<and>
   (\<forall>x. cc = x @ [LF] \<and> int (length x) > m \<longrightarrow> trim x \<in> set chunks' \<or> cc' = cc) \<and>
   (\<forall>line\<in>set lines. int (length line) > m \<longrightarrow>
      trim line \<in> set chunks' \<or> cc' = line @ [LF])"
proof (induction lines arbitrary: chunks cc)
  case Nil
  then show ?case by simp
next
  case (Cons line lines)
  show ?case
  proof (cases "int (length (cc @ line)) > m \<and> length cc > 0")
    case True
    have l: "chunkByLine_loop m lines (chunks @ [trim cc]) (line @ [LF]) = (chunks', cc')"
      using Cons.prems chunkByLine_loop_flush [OF True] by simp
    note ih = Cons.IH [OF l]
    have 1: "set chunks \<subseteq> set chunks'" using ih by auto
    have 2: "trim x \<in> set chunks'" if "cc = x @ [LF]" for x
    proof -
      have "trim cc = trim x" using that by (simp add: trim_snoc_ws)
      moreover have "trim cc \<in> set chunks'" using ih by auto
      ultimately show ?thesis by simp
    qed
    have 3: "trim line \<in> set chunks' \<or> cc' = line @ [LF]" if "int (length line) > m"
      using ih that by blast
    from 1 2 3 ih show ?thesis by auto
  next
    case False
    have l: "chunkByLine_loop m lines chunks (cc @ line @ [LF]) = (chunks', cc')"
      using Cons.prems chunkByLine_loop_keep [OF False] by simp
    note ih = Cons.IH [OF l]
    have 1: "set chunks \<subseteq> set chunks'" using ih by auto
    have 2: "\<not> (cc = x @ [LF] \<and> int (length x) > m)" for x
      using False by auto
    have 3: "trim line \<in> set chunks' \<or> cc' = line @ [LF]" if big: "int (length line) > m"
    proof -
      have "cc = []" using False big by auto
      then have "trim line \<in> set chunks' \<or> cc' = cc @ line @ [LF]"
        using ih big by auto
      then show ?thesis using \<open>cc = []\<close> by simp
    qed
    from 1 2 3 ih show ?thesis by auto
  qed
qed

lemma chunkByLine_emits:
  assumes "line \<in> set (split_lines text)" and "int (length line) > m"
  shows "trim line \<in> set (chunkByLine text m)"
proof -
  obtain chunks cc where l: "chunkByLine_loop m (split_lines text) [] [] = (chunks, cc)"
    by (cases "chunkByLine_loop m (split_lines text) [] []") auto
  have "trim line \<in> set chunks \<or> cc = line @ [LF]"
    using chunkByLine_loop_emits [OF l] assms by blast
  then show ?thesis
  proof
    assume "trim line \<in> set chunks"
    then show ?thesis using l by (simp add: chunkByLine_def)
  next
    assume "cc = line @ [LF]"
    then have "trim cc = trim line" "cc \<noteq> []" by (simp_all add: trim_snoc_ws)
    then show ?thesis using l by (simp add: chunkByLine_def)
  qed
qed

text \<open>
  C1, as the code has it. Every chunk that \<open>chunkText\<close> returns, for any text and any
  size, is no longer than the size, unless it is one line on its own, longer than the size
  and trimmed of the white space at its two ends. The lines are those of the sections:
  the lines of the text itself when the declaration pattern matches at most once, and
  otherwise the lines of the trimmed spans between the starts of the matches, which are
  pieces of the text and may start or end inside one of its lines. Every line of a section
  that is longer than the size is among the chunks, whole but for the trimming: it is
  neither cut to the size nor dropped. For a text longer than the size the chunks are,
  section after section, the section itself when it is within the size and its line-based
  chunks otherwise.
\<close>

theorem chunkText_bounded:
  "(c \<in> set (chunkText text maxChunkSize) \<longrightarrow>
      int (length c) \<le> maxChunkSize \<or>
      (\<exists>sec\<in>set (sections text). \<exists>line\<in>set (split_lines sec).
         int (length line) > maxChunkSize \<and> c = trim line)) \<and>
   (sec \<in> set (sections text) \<and> line \<in> set (split_lines sec) \<and>
    int (length line) > maxChunkSize \<longrightarrow>
      trim line \<in> set (chunkText text maxChunkSize)) \<and>
   (sec \<in> set (sections text) \<longrightarrow> sublist sec text) \<and>
   (length (matchAll_index text) \<le> 1 \<longrightarrow> sections text = [text]) \<and>
   (int (length text) > maxChunkSize \<longrightarrow>
      chunkText text maxChunkSize =
        concat (map (\<lambda>sec. if int (length sec) > maxChunkSize
                           then chunkByLine sec maxChunkSize else [sec])
                  (sections text)))"
proof -
  let ?m = maxChunkSize
  let ?f = "\<lambda>sec. if int (length sec) > ?m then chunkByLine sec ?m else [sec]"
  have A: "int (length c) \<le> ?m \<or>
      (\<exists>sec\<in>set (sections text). \<exists>line\<in>set (split_lines sec).
         int (length line) > ?m \<and> c = trim line)"
    if c: "c \<in> set (chunkText text ?m)"
  proof (cases "int (length text) \<le> ?m")
    case True
    with c show ?thesis by (simp add: chunkText_def)
  next
    case False
    from c obtain s where s: "s \<in> set (sections text)" "c \<in> set (?f s)"
      unfolding chunkText_sections [OF False] by auto
    show ?thesis
    proof (cases "int (length s) > ?m")
      case True
      with s(2) have "chunk_ok ?m (set (split_lines s)) c"
        by (simp add: chunkByLine_bounded)
      with s(1) show ?thesis unfolding chunk_ok_def by blast
    next
      case False
      with s(2) show ?thesis by simp
    qed
  qed
  have B: "trim line \<in> set (chunkText text ?m)"
    if sec: "sec \<in> set (sections text)" and line: "line \<in> set (split_lines sec)"
      and big: "int (length line) > ?m"
  proof -
    have "sublist line sec" using split_lines_line [OF line] by simp
    then have ls: "length line \<le> length sec" by (rule sublist_length_le)
    have "length sec \<le> length text"
      using sections_sublist [OF sec] by (rule sublist_length_le)
    with ls big have big_text: "\<not> int (length text) \<le> ?m" by linarith
    have "trim line \<in> set (?f sec)"
      using ls big chunkByLine_emits [OF line big] by simp
    with sec have "\<exists>s\<in>set (sections text). trim line \<in> set (?f s)" by blast
    then show ?thesis
      by (simp only: chunkText_sections [OF big_text] set_concat set_map UN_iff bex_simps
            image_iff)
  qed
  have C: "sublist sec text" if "sec \<in> set (sections text)"
    using that by (rule sections_sublist)
  have D: "sections text = [text]" if "length (matchAll_index text) \<le> 1"
    using that by (simp add: sections_def)
  have E: "chunkText text ?m = concat (map ?f (sections text))"
    if "int (length text) > ?m"
    using that by (intro chunkText_sections) simp
  from A B C D E show ?thesis by blast
qed

lemmas chunker_defs = chunkText_def chunkByLine_def section_chunks_def substring_def
  matchAll_index_def match_at_def match_declaration_def match_keyword_def match_word_ws_def
  trim_def is_ws_def ascii_def

lemma chunkText_sample:
  "chunkText sample_text 4 = [ascii ''aa'', ascii ''bbbbbbb'', ascii ''c'' @ [LF] @ ascii ''d'']"
  by (simp add: sample_text_def chunker_defs)

lemma cut_text_matches: "matchAll_index cut_text = [0, 8]"
  by (simp add: cut_text_def chunker_defs)

lemma cut_text_chunks: "chunkText cut_text 5 = [ascii ''let a{x}'', ascii ''let b{y}'']"
  by (simp add: cut_text_def chunker_defs)

lemma cut_text_sections: "sections cut_text = [ascii ''let a{x}'', ascii ''let b{y}'']"
  by (simp add: sections_def cut_text_matches)
     (simp add: cut_text_def substring_def trim_def is_ws_def ascii_def)

lemma chunkText_boundary_sample:
  "matchAll_index boundary_text = [2, 10] \<and>
   chunkText boundary_text 8 = [ascii ''x;'', ascii ''let a{};'', ascii ''var b{}'']"
  by (simp add: boundary_text_def chunker_defs)

theorem chunkText_bounded_witness:
  "chunkText sample_text 4 = [ascii ''aa'', ascii ''bbbbbbb'', ascii ''c'' @ [LF] @ ascii ''d''] \<and>
   sections sample_text = [sample_text] \<and>
   ascii ''bbbbbbb'' \<in> set (split_lines sample_text) \<and>
   int (length (ascii ''bbbbbbb'')) > 4 \<and>
   trim (ascii ''bbbbbbb'') = ascii ''bbbbbbb'' \<and>
   trim (ascii ''bbbbbbb'') \<in> set (chunkText sample_text 4) \<and>
   chunkText cut_text 5 = [ascii ''let a{x}'', ascii ''let b{y}''] \<and>
   sections cut_text = [ascii ''let a{x}'', ascii ''let b{y}''] \<and>
   ascii ''let a{x}'' \<in> set (split_lines (ascii ''let a{x}'')) \<and>
   int (length (ascii ''let a{x}'')) > 5 \<and>
   trim (ascii ''let a{x}'') \<in> set (chunkText cut_text 5) \<and>
   sublist (ascii ''let a{x}'') cut_text"
proof -
  have m: "length (matchAll_index sample_text) \<le> 1"
    by (simp add: sample_text_def chunker_defs)
  have l: "ascii ''bbbbbbb'' \<in> set (split_lines sample_text)"
    by (simp add: sample_text_def ascii_def)
  have b: "int (length (ascii ''bbbbbbb'')) > 4" by (simp add: ascii_def)
  have t: "trim (ascii ''bbbbbbb'') = ascii ''bbbbbbb''"
    by (simp add: trim_def is_ws_def ascii_def)
  have l2: "ascii ''let a{x}'' \<in> set (split_lines (ascii ''let a{x}''))"
    by (simp add: ascii_def)
  have b2: "int (length (ascii ''let a{x}'')) > 5" by (simp add: ascii_def)
  note line_case = chunkText_bounded
      [of _ sample_text 4 sample_text "ascii ''bbbbbbb''"]
  note cut_case = chunkText_bounded
      [of _ cut_text 5 "ascii ''let a{x}''" "ascii ''let a{x}''"]
  have s: "sections sample_text = [sample_text]"
    using line_case m by blast
  have e: "trim (ascii ''bbbbbbb'') \<in> set (chunkText sample_text 4)"
    using line_case s l b by simp
  have e2: "trim (ascii ''let a{x}'') \<in> set (chunkText cut_text 5)"
    using cut_case cut_text_sections l2 b2 by simp
  have u: "sublist (ascii ''let a{x}'') cut_text"
    using cut_case cut_text_sections by simp
  from chunkText_sample s l b t e cut_text_chunks cut_text_sections l2 b2 e2 u
  show ?thesis by blast
qed

text \<open>
  C1, as the claim states it, fails: with two declarations on one line, the line, longer
  than the size, is not given as one chunk. It is cut where the second declaration starts,
  and each piece is a chunk longer than the size that is not a line of the text.
\<close>

theorem oversized_line_cut_counterexample:
  "split_lines cut_text = [cut_text] \<and>
   int (length cut_text) > 5 \<and>
   chunkText cut_text 5 = [ascii ''let a{x}'', ascii ''let b{y}''] \<and>
   int (length (ascii ''let a{x}'')) > 5 \<and>
   ascii ''let a{x}'' \<noteq> trim cut_text \<and>
   trim cut_text \<notin> set (chunkText cut_text 5)"
  by (simp add: cut_text_chunks) (simp add: cut_text_def trim_def is_ws_def ascii_def)

text \<open>
  C7. For a text longer than the size in which the declaration pattern matches at most
  once, the chunks put one after the other hold, white space aside, exactly the code units
  of the text, in their order: nothing but white space is dropped, nothing is repeated.
\<close>

theorem chunkText_preserves_content:
  "int (length text) > maxChunkSize \<Longrightarrow> length (matchAll_index text) \<le> 1 \<Longrightarrow>
   non_whitespace (concat (chunkText text maxChunkSize)) = non_whitespace text"
  by (simp add: chunkText_def chunkByLine_content)


theorem chunkText_preserves_content_witness:
  "int (length sample_declaration) > 10 \<and> length (matchAll_index sample_declaration) \<le> 1 \<and>
   chunkText sample_declaration 10 = [ascii ''let x = {'', ascii ''a: 1 }''] \<and>
   non_whitespace (concat (chunkText sample_declaration 10)) = ascii ''letx={a:1}'' \<and>
   non_whitespace sample_declaration = ascii ''letx={a:1}''"
proof -
  have a: "int (length sample_declaration) > 10"
    by (simp add: sample_declaration_def ascii_def)
  have b: "length (matchAll_index sample_declaration) \<le> 1"
    by (simp add: sample_declaration_def chunker_defs)
  have c: "chunkText sample_declaration 10 = [ascii ''let x = {'', ascii ''a: 1 }'']"
    by (simp add: sample_declaration_def chunker_defs)
  have d: "non_whitespace sample_declaration = ascii ''letx={a:1}''"
    by (simp add: sample_declaration_def non_whitespace_def is_ws_def ascii_def)
  show ?thesis
    using a b c d chunkText_preserves_content [OF a b] by simp
qed

lemma match_declaration_no_brace: "0x7B \<notin> set s \<Longrightarrow> match_declaration s = None"
proof -
  assume b: "0x7B \<notin> set s"
  have "0x7B \<notin> set (drop k (drop n2 (drop n1 s)))" for k n1 n2
    using b by (meson in_set_dropD)
  then show ?thesis
    by (simp add: match_declaration_def Let_def split: option.splits)
qed

lemma match_comment_end_no_brace: "0x7B \<notin> set s \<Longrightarrow> match_comment_end s = None"
proof (induction s rule: match_comment_end.induct)
  case 1
  show ?case by simp
next
  case (2 c)
  show ?case by simp
next
  case (3 c d cs)
  have "0x7B \<notin> set (dropWhile is_ws cs)"
    using 3(2) by (auto dest: set_dropWhileD)
  then have "match_declaration (dropWhile is_ws cs) = None"
    by (rule match_declaration_no_brace)
  then have "(if c = 0x2A \<and> d = 0x2F
         then map_option (\<lambda>n. 2 + length (takeWhile is_ws cs) + n)
                (match_declaration (dropWhile is_ws cs))
         else None) = None"
    by simp
  moreover from this have "match_comment_end (d # cs) = None"
    using 3 by simp
  ultimately show ?case by (simp del: One_nat_def)
qed

lemma match_at_no_brace: "0x7B \<notin> set s \<Longrightarrow> match_at s = None"
proof -
  assume b: "0x7B \<notin> set s"
  then have "0x7B \<notin> set (drop 3 s)" by (meson in_set_dropD)
  then show ?thesis
    using b by (simp add: match_at_def match_comment_end_no_brace match_declaration_no_brace)
qed

lemma matchAll_from_no_brace: "0x7B \<notin> set s \<Longrightarrow> matchAll_from skip pos s = []"
proof (induction s arbitrary: skip pos)
  case Nil
  show ?case by simp
next
  case (Cons c cs)
  have "match_at (c # cs) = None" using Cons.prems by (rule match_at_no_brace)
  moreover have "matchAll_from k p cs = []" for k p using Cons by simp
  ultimately show ?case by simp
qed

lemma split_lines_single:
  "\<forall>c\<in>set x. c \<noteq> LF \<and> c \<noteq> CR \<Longrightarrow> split_lines (x @ [LF]) = [x, []]"
proof (induction x)
  case Nil
  show ?case by simp
next
  case (Cons c x)
  obtain d cs where d: "x @ [LF] = d # cs" by (cases x) auto
  have c: "c \<noteq> LF" "\<not> (c = CR \<and> d = LF)" using Cons.prems by auto
  have "split_lines (x @ [LF]) = [x, []]" using Cons by simp
  then show ?case
    using split_lines_other [OF c, of cs] d by simp
qed

lemma trim_id: "x \<noteq> [] \<Longrightarrow> \<not> is_ws (hd x) \<Longrightarrow> \<not> is_ws (last x) \<Longrightarrow> trim x = x"
proof -
  assume x: "x \<noteq> []" and h: "\<not> is_ws (hd x)" and l: "\<not> is_ws (last x)"
  have "dropWhile is_ws x = x" using x h by (cases x) auto
  moreover have "dropWhile is_ws (rev x) = rev x"
    using x l by (cases "rev x") (auto simp: last_rev [symmetric] simp del: last_rev)
  ultimately show ?thesis by (simp add: trim_def)
qed

lemma chunkText_trailing_newline:
  assumes clean: "\<forall>c\<in>set x. \<not> is_ws c \<and> c \<noteq> 0x7B"
    and ne: "x \<noteq> []"
    and big: "m \<le> int (length x)"
  shows "chunkText (x @ [LF]) m = [x, []]"
proof -
  have "0x7B \<notin> set (x @ [LF])" using clean by auto
  then have nomatch: "matchAll_index (x @ [LF]) = []"
    by (simp add: matchAll_index_def matchAll_from_no_brace)
  have "\<forall>c\<in>set x. c \<noteq> LF \<and> c \<noteq> CR" using clean by auto
  then have lines: "split_lines (x @ [LF]) = [x, []]" by (rule split_lines_single)
  have "\<not> is_ws (hd x)" "\<not> is_ws (last x)" using clean ne by auto
  then have "trim x = x" using ne by (simp add: trim_id)
  then have t: "trim (x @ [LF]) = x" by (simp add: trim_snoc_ws)
  have t0: "trim [LF] = []" by (simp add: trim_def)
  have "chunkByLine_loop m [x, []] [] [] = ([x], [LF])"
    using big ne t by simp
  then have "chunkByLine (x @ [LF]) m = [x, []]"
    using lines t0 by (simp add: chunkByLine_def)
  then show ?thesis
    using big nomatch by (simp add: chunkText_def)
qed

text \<open>
  C2 asks that no chunk is empty. \<open>chunkByLine\<close> tests the buffer before trimming it, so
  a buffer of white space alone becomes an empty chunk. With the size 8000 of
  \<open>MAX_CHUNK_SIZE\<close>, a line of 8000 letters that ends in a line feed gives the line and
  then the empty string.
\<close>

theorem chunkText_emits_empty_chunk:
  "chunkText (replicate 8000 0x61 @ [LF]) 8000 = [replicate 8000 0x61, []]"
  by (rule chunkText_trailing_newline) (simp_all add: is_ws_def)

section \<open>Properties of persistence\<close>

lemma saveKnowledgeBase_empty:
  "knowledgeBase st = [] \<Longrightarrow>
   saveKnowledgeBase e p st =
     (Returned, st\<lparr>console := console st @ [Saving p, EmptyNothingToSave]\<rparr>)"
  by (simp add: saveKnowledgeBase_def console_log_def)

lemma writeFileSync_Inr: "writeFileSync d p data = Inr d' \<Longrightarrow> d' = d(p \<mapsto> File data)"
  by (auto simp: writeFileSync_def split: option.splits fsnode.splits if_splits)

lemma saveKnowledgeBase_write:
  "knowledgeBase st \<noteq> [] \<Longrightarrow>
   writeFileSync (fs st) p (JSON_stringify e (knowledgeBase st)) = Inr d \<Longrightarrow>
   saveKnowledgeBase e p st =
     (Returned,
      st\<lparr>fs := (fs st)(p \<mapsto> File (JSON_stringify e (knowledgeBase st))),
         console := console st @ [Saving p, SaveStats (length (knowledgeBase st)) p]\<rparr>)"
  using writeFileSync_Inr [of "fs st" p "JSON_stringify e (knowledgeBase st)" d]
  by (simp add: saveKnowledgeBase_def console_log_def Let_def)

lemma saveKnowledgeBase_refused:
  "knowledgeBase st \<noteq> [] \<Longrightarrow>
   writeFileSync (fs st) p (JSON_stringify e (knowledgeBase st)) = Inl err \<Longrightarrow>
   saveKnowledgeBase e p st = (Threw err, st\<lparr>console := console st @ [Saving p]\<rparr>)"
  by (simp add: saveKnowledgeBase_def console_log_def Let_def)

lemma loadKnowledgeBase_missing:
  "fs st p = None \<Longrightarrow>
   loadKnowledgeBase e p st = (Returned, st\<lparr>console := console st @ [Loading p, FileNotFound p]\<rparr>)"
  by (simp add: loadKnowledgeBase_def console_log_def existsSync_def)

lemma loadKnowledgeBase_file:
  "fs st p = Some (File data) \<Longrightarrow>
   loadKnowledgeBase e p st =
     (case JSON_parse e data of
        Inl err \<Rightarrow> (Threw err, st\<lparr>console := console st @ [Loading p, FileSize (length data)]\<rparr>)
      | Inr kb \<Rightarrow>
          (Returned,
           st\<lparr>knowledgeBase := kb,
              console := console st @ [Loading p, FileSize (length data), LoadStats (length kb)]\<rparr>))"
  by (simp add: loadKnowledgeBase_def console_log_def existsSync_def readFileSync_def Let_def
           split: sum.splits)

text \<open>
  C8. Saving an empty knowledge base returns normally after printing the warning line: the
  disk and the knowledge base are as before, so a snapshot already at the location keeps
  its contents. Saving a non-empty knowledge base, when the write succeeds, replaces
  whatever the location held by the serialisation of the whole knowledge base; when the
  write throws, the call throws the same error and the disk is as before.
\<close>

theorem saveKnowledgeBase_guarded:
  "(knowledgeBase st = [] \<longrightarrow>
      saveKnowledgeBase e p st =
        (Returned, st\<lparr>console := console st @ [Saving p, EmptyNothingToSave]\<rparr>)) \<and>
   (knowledgeBase st \<noteq> [] \<and>
    writeFileSync (fs st) p (JSON_stringify e (knowledgeBase st)) = Inr d \<longrightarrow>
      fst (saveKnowledgeBase e p st) = Returned \<and>
      fs (snd (saveKnowledgeBase e p st)) =
        (fs st)(p \<mapsto> File (JSON_stringify e (knowledgeBase st))) \<and>
      knowledgeBase (snd (saveKnowledgeBase e p st)) = knowledgeBase st) \<and>
   (knowledgeBase st \<noteq> [] \<and>
    writeFileSync (fs st) p (JSON_stringify e (knowledgeBase st)) = Inl err \<longrightarrow>
      fst (saveKnowledgeBase e p st) = Threw err \<and>
      fs (snd (saveKnowledgeBase e p st)) = fs st \<and>
      knowledgeBase (snd (saveKnowledgeBase e p st)) = knowledgeBase st)"
  by (simp add: saveKnowledgeBase_empty saveKnowledgeBase_write saveKnowledgeBase_refused)

lemma fixture_write:
  "writeFileSync (fs data_state) snapshot_path
     (JSON_stringify fixture_env (knowledgeBase data_state)) =
   Inr ((fs data_state)(snapshot_path \<mapsto> File snapshot_text))"
  by (simp add: writeFileSync_def dirname_def data_state_def snapshot_path_def fixture_env_def
        ascii_def)

lemma fixture_write_refused:
  "writeFileSync (fs loaded_state) snapshot_path
     (JSON_stringify fixture_env (knowledgeBase loaded_state)) = Inl ENOENT"
  by (simp add: writeFileSync_def dirname_def loaded_state_def snapshot_path_def ascii_def)

theorem saveKnowledgeBase_guarded_witness:
  "knowledgeBase (data_state\<lparr>knowledgeBase := []\<rparr>) = [] \<and>
   fs (snd (saveKnowledgeBase fixture_env snapshot_path (data_state\<lparr>knowledgeBase := []\<rparr>)))
      snapshot_path = Some (File (ascii ''[b]'')) \<and>
   console (snd (saveKnowledgeBase fixture_env snapshot_path (data_state\<lparr>knowledgeBase := []\<rparr>)))
     = [Saving snapshot_path, EmptyNothingToSave] \<and>
   knowledgeBase data_state \<noteq> [] \<and>
   writeFileSync (fs data_state) snapshot_path
     (JSON_stringify fixture_env (knowledgeBase data_state)) =
     Inr ((fs data_state)(snapshot_path \<mapsto> File snapshot_text)) \<and>
   fst (saveKnowledgeBase fixture_env snapshot_path data_state) = Returned \<and>
   fs (snd (saveKnowledgeBase fixture_env snapshot_path data_state)) snapshot_path
     = Some (File snapshot_text) \<and>
   knowledgeBase loaded_state \<noteq> [] \<and>
   writeFileSync (fs loaded_state) snapshot_path
     (JSON_stringify fixture_env (knowledgeBase loaded_state)) = Inl ENOENT \<and>
   fst (saveKnowledgeBase fixture_env snapshot_path loaded_state) = Threw ENOENT \<and>
   fs (snd (saveKnowledgeBase fixture_env snapshot_path loaded_state)) = fs loaded_state"
proof -
  have e: "knowledgeBase (data_state\<lparr>knowledgeBase := []\<rparr>) = []" by simp
  have n: "knowledgeBase data_state \<noteq> []" by (simp add: data_state_def)
  have l: "knowledgeBase loaded_state \<noteq> []" by (simp add: loaded_state_def)
  have f: "fs data_state snapshot_path = Some (File (ascii ''[b]''))"
    by (simp add: data_state_def)
  show ?thesis
    using saveKnowledgeBase_guarded
            [where st = "data_state\<lparr>knowledgeBase := []\<rparr>" and e = fixture_env
               and p = snapshot_path]
          saveKnowledgeBase_guarded
            [where st = data_state and e = fixture_env and p = snapshot_path
               and d = "(fs data_state)(snapshot_path \<mapsto> File snapshot_text)"]
          saveKnowledgeBase_guarded
            [where st = loaded_state and e = fixture_env and p = snapshot_path
               and err = ENOENT]
          e n l f fixture_write fixture_write_refused
    by (simp add: data_state_def fixture_env_def)
qed

text \<open>
  C4, as the code has it. Loading from a location that does not exist prints the
  not-found line with \<open>console.error\<close> and returns normally, the knowledge base and the disk
  untouched: no condition reaches the caller. Loading from a file whose text parses sets
  the knowledge base to the parsed value, whatever it held before.
\<close>

theorem loadKnowledgeBase_missing_returns:
  "(fs st p = None \<longrightarrow>
      loadKnowledgeBase e p st =
        (Returned, st\<lparr>console := console st @ [Loading p, FileNotFound p]\<rparr>)) \<and>
   (fs st p = Some (File data) \<and> JSON_parse e data = Inr kb \<longrightarrow>
      fst (loadKnowledgeBase e p st) = Returned \<and>
      knowledgeBase (snd (loadKnowledgeBase e p st)) = kb)"
  by (simp add: loadKnowledgeBase_missing loadKnowledgeBase_file)

theorem loadKnowledgeBase_missing_returns_witness:
  "fs loaded_state snapshot_path = None \<and>
   loadKnowledgeBase fixture_env snapshot_path loaded_state =
     (Returned, loaded_state\<lparr>console := [Loading snapshot_path, FileNotFound snapshot_path]\<rparr>) \<and>
   fs (stale_state\<lparr>fs := [snapshot_path \<mapsto> File snapshot_text]\<rparr>) snapshot_path
     = Some (File snapshot_text) \<and>
   JSON_parse fixture_env snapshot_text = Inr [chunk_a, chunk_b] \<and>
   fst (loadKnowledgeBase fixture_env snapshot_path
          (stale_state\<lparr>fs := [snapshot_path \<mapsto> File snapshot_text]\<rparr>)) = Returned \<and>
   knowledgeBase (snd (loadKnowledgeBase fixture_env snapshot_path
          (stale_state\<lparr>fs := [snapshot_path \<mapsto> File snapshot_text]\<rparr>))) = [chunk_a, chunk_b]"
  using loadKnowledgeBase_missing_returns
          [where st = loaded_state and p = snapshot_path and e = fixture_env]
        loadKnowledgeBase_missing_returns
          [where st = "stale_state\<lparr>fs := [snapshot_path \<mapsto> File snapshot_text]\<rparr>"
             and p = snapshot_path and data = snapshot_text and e = fixture_env
             and kb = "[chunk_a, chunk_b]"]
  by (simp add: loaded_state_def fixture_env_def)

text \<open>
  C4, as the claim states it, fails: at a location that does not exist the call returns
  normally.
\<close>

theorem loadKnowledgeBase_notfound_counterexample:
  "\<not> existsSync (fs loaded_state) snapshot_path \<and>
   fst (loadKnowledgeBase fixture_env snapshot_path loaded_state) = Returned \<and>
   knowledgeBase (snd (loadKnowledgeBase fixture_env snapshot_path loaded_state))
     = [chunk_a, chunk_b]"
  by (simp add: loadKnowledgeBase_def existsSync_def loaded_state_def console_log_def)

text \<open>
  C10. When the file at the location exists and \<open>JSON.parse\<close> throws on its text, the call
  throws that error, and the knowledge base and the disk are what they were before the
  call.
\<close>

theorem loadKnowledgeBase_malformed_atomic:
  "fs st p = Some (File data) \<Longrightarrow> JSON_parse e data = Inl err \<Longrightarrow>
   fst (loadKnowledgeBase e p st) = Threw err \<and>
   knowledgeBase (snd (loadKnowledgeBase e p st)) = knowledgeBase st \<and>
   fs (snd (loadKnowledgeBase e p st)) = fs st"
  by (simp add: loadKnowledgeBase_file)

theorem loadKnowledgeBase_malformed_atomic_witness:
  "fs stale_state snapshot_path = Some (File (ascii ''[a, b'')) \<and>
   JSON_parse fixture_env (ascii ''[a, b'') = Inl SyntaxError \<and>
   fst (loadKnowledgeBase fixture_env snapshot_path stale_state) = Threw SyntaxError \<and>
   knowledgeBase (snd (loadKnowledgeBase fixture_env snapshot_path stale_state)) = [chunk_b]"
proof -
  have f: "fs stale_state snapshot_path = Some (File (ascii ''[a, b''))"
    by (simp add: stale_state_def)
  have p: "JSON_parse fixture_env (ascii ''[a, b'') = Inl SyntaxError"
    by (simp add: fixture_env_def snapshot_text_def ascii_def)
  show ?thesis
    using f p loadKnowledgeBase_malformed_atomic [OF f p]
    by (simp add: stale_state_def)
qed

text \<open>
  C3. When saving a knowledge base with at least one chunk succeeds in writing the
  location, loading from that location gives back the same ordered sequence of chunks
  (content, embedding, source and type of each), whatever the knowledge base in memory is
  at the time of the load (a restarted process starts from the empty one). The code
  contributes that the whole store is serialised and written, that the same location is
  read, and that the parsed value replaces the store. Two things are taken from outside
  the code and stand as hypotheses: that \<open>fs.writeFileSync\<close> does not throw, and that
  \<open>JSON.parse\<close> returns the knowledge base \<open>JSON.stringify\<close> was given. The second is
  the round trip of the JSON text of strings and finite floating-point numbers; its
  arithmetic is not modelled.
\<close>

theorem save_then_load_roundtrip:
  assumes "knowledgeBase st \<noteq> []"
    and "writeFileSync (fs st) p (JSON_stringify e (knowledgeBase st)) = Inr d"
    and "JSON_parse e (JSON_stringify e (knowledgeBase st)) = Inr (knowledgeBase st)"
  shows "fst (saveKnowledgeBase e p st) = Returned \<and>
         fst (loadKnowledgeBase e p (snd (saveKnowledgeBase e p st)\<lparr>knowledgeBase := kb0\<rparr>))
           = Returned \<and>
         knowledgeBase
           (snd (loadKnowledgeBase e p (snd (saveKnowledgeBase e p st)\<lparr>knowledgeBase := kb0\<rparr>)))
           = knowledgeBase st"
proof -
  let ?st1 = "snd (saveKnowledgeBase e p st)\<lparr>knowledgeBase := kb0\<rparr>"
  note saved = saveKnowledgeBase_write [OF assms(1,2)]
  have "fs ?st1 p = Some (File (JSON_stringify e (knowledgeBase st)))"
    by (simp add: saved)
  then have "loadKnowledgeBase e p ?st1 =
      (Returned,
       ?st1\<lparr>knowledgeBase := knowledgeBase st,
            console := console ?st1 @
              [Loading p, FileSize (length (JSON_stringify e (knowledgeBase st))),
               LoadStats (length (knowledgeBase st))]\<rparr>)"
    using assms(3) by (simp add: loadKnowledgeBase_file)
  then show ?thesis
    by (simp add: saved)
qed

theorem save_then_load_roundtrip_witness:
  "knowledgeBase data_state \<noteq> [] \<and>
   writeFileSync (fs data_state) snapshot_path
     (JSON_stringify fixture_env (knowledgeBase data_state)) =
     Inr ((fs data_state)(snapshot_path \<mapsto> File snapshot_text)) \<and>
   JSON_parse fixture_env (JSON_stringify fixture_env (knowledgeBase data_state))
     = Inr (knowledgeBase data_state) \<and>
   fst (saveKnowledgeBase fixture_env snapshot_path data_state) = Returned \<and>
   knowledgeBase
     (snd (loadKnowledgeBase fixture_env snapshot_path
        (snd (saveKnowledgeBase fixture_env snapshot_path data_state)\<lparr>knowledgeBase := []\<rparr>)))
     = [chunk_a, chunk_b]"
proof -
  have a: "knowledgeBase data_state \<noteq> []" by (simp add: data_state_def)
  have c: "JSON_parse fixture_env (JSON_stringify fixture_env (knowledgeBase data_state))
             = Inr (knowledgeBase data_state)"
    by (simp add: data_state_def fixture_env_def)
  show ?thesis
    using a c fixture_write save_then_load_roundtrip [OF a fixture_write c, of "[]"]
    by (simp add: data_state_def)
qed

section \<open>Properties of retrieval\<close>

lemma insert_by_similarity:
  "insert_by by_similarity x ys = insort_key (\<lambda>r. - similarity r) x ys"
  by (induction ys) (auto simp: by_similarity_def)

lemma sort_by_similarity: "sort_by by_similarity xs = sort_key (\<lambda>r. - similarity r) xs"
proof -
  have "insert_by by_similarity = insort_key (\<lambda>r. - similarity r)"
    by (intro ext) (rule insert_by_similarity)
  then show ?thesis by (simp add: sort_by_def sort_key_def)
qed

lemma sort_by_similarity_sorted:
  "sorted_wrt (\<lambda>a b. similarity a \<ge> similarity b) (sort_by by_similarity xs)"
proof -
  have "sorted (map (\<lambda>r. - similarity r) (sort_key (\<lambda>r. - similarity r) xs))"
    by (rule sorted_sort_key)
  then show ?thesis
    by (simp add: sort_by_similarity sorted_map sorted_wrt_iff_nth_less)
qed

lemma sort_by_similarity_stable:
  "filter (\<lambda>r. similarity r = k) (sort_by by_similarity xs) = filter (\<lambda>r. similarity r = k) xs"
proof -
  have "filter (\<lambda>r. - similarity r = - k) (sort_key (\<lambda>r. - similarity r) xs)
      = filter (\<lambda>r. - similarity r = - k) xs"
    by (rule sort_key_stable)
  then show ?thesis by (simp add: sort_by_similarity)
qed

lemma slice0_take: "\<exists>k. slice0 n xs = take k xs"
  by (auto simp: slice0_def)

lemma slice0_length: "0 \<le> n \<Longrightarrow> int (length (slice0 n xs)) \<le> n"
  by (simp add: slice0_def)

lemma slice0_hd: "0 < n \<Longrightarrow> xs \<noteq> [] \<Longrightarrow> slice0 n xs \<noteq> [] \<and> hd (slice0 n xs) = hd xs"
  by (cases xs) (auto simp: slice0_def take_Cons split: nat.splits)

lemma filter_take_prefix: "prefix (filter P (take k xs)) (filter P xs)"
proof -
  have "filter P xs = filter P (take k xs) @ filter P (drop k xs)"
    by (metis append_take_drop_id filter_append)
  then show ?thesis by (metis prefixI)
qed

lemma score_all_Inr:
  "score_all e q docs = Inr rs \<Longrightarrow>
   map document rs = docs \<and>
   (\<forall>r\<in>set rs. cosineSimilarity e q (embedding (document r)) = Inr (similarity r))"
  by (induction docs arbitrary: rs) (auto split: sum.splits)

lemma map_document_filter:
  assumes "\<forall>r\<in>set rs. cosineSimilarity e q (embedding (document r)) = Inr (similarity r)"
  shows "map document (filter (\<lambda>r. similarity r = k) rs)
       = filter (\<lambda>d. cosineSimilarity e q (embedding d) = Inr k) (map document rs)"
  using assms by (induction rs) auto

lemma relevantResults_Inr:
  assumes "relevantResults e kb query maxResults = Inr results"
  obtains q rs where "embed e query = Inr q"
    and "score_all e q (filter (isCodeEntry e) kb) = Inr rs"
    and "results = slice0 maxResults (sort_by by_similarity rs)"
  using assms by (auto simp: relevantResults_def split: sum.splits)

lemma getRelevantContext_results:
  "getRelevantContext e st query maxResults =
     (if knowledgeBase st = [] then Inr (ascii ''No knowledge base available'')
      else map_sum id (\<lambda>results. join [LF, LF] (map format_result results))
             (relevantResults e (knowledgeBase st) query maxResults))"
  by (simp add: getRelevantContext_def split: sum.splits)

text \<open>
  C5. When \<open>getRelevantContext\<close> gets as far as its results, with a limit that is not
  negative, there are at most \<open>maxResults\<close> of them, each is a chunk of the knowledge base,
  and for each the lower-cased extension of the file name in its source is one of \<open>.ts\<close>,
  \<open>.tsx\<close>, \<open>.js\<close>, \<open>.jsx\<close>. The filter reads the source only: changing the stored
  \<open>metadata.type\<close> of a chunk does not change whether it passes.
\<close>

theorem relevantResults_limit_and_filter:
  assumes "relevantResults e kb query maxResults = Inr results"
    and "0 \<le> maxResults"
  shows "int (length results) \<le> maxResults \<and>
         (\<forall>r\<in>set results.
            document r \<in> set kb \<and>
            toLowerCase e (extname e (takeWhile (\<lambda>c. c \<noteq> 0x20) (source (metadata (document r)))))
              \<in> set code_extensions) \<and>
         isCodeEntry e (doc\<lparr>metadata := (metadata doc)\<lparr>type := t\<rparr>\<rparr>) = isCodeEntry e doc"
proof -
  from assms(1) obtain q rs where q: "embed e query = Inr q"
    and rs: "score_all e q (filter (isCodeEntry e) kb) = Inr rs"
    and res: "results = slice0 maxResults (sort_by by_similarity rs)"
    by (rule relevantResults_Inr)
  have docs: "map document rs = filter (isCodeEntry e) kb"
    using score_all_Inr [OF rs] by simp
  obtain k where k: "results = take k (sort_by by_similarity rs)"
    using res slice0_take by metis
  have "set results \<subseteq> set rs"
    using set_take_subset [of k "sort_by by_similarity rs"]
    by (simp add: k sort_by_similarity)
  then have "document r \<in> set (filter (isCodeEntry e) kb)" if "r \<in> set results" for r
    using that docs by (metis image_eqI set_map subsetD)
  then have "\<forall>r\<in>set results. document r \<in> set kb \<and> isCodeEntry e (document r)"
    by simp
  moreover have "int (length results) \<le> maxResults"
    using assms(2) by (simp add: res slice0_length)
  ultimately show ?thesis
    by (simp add: isCodeEntry_def Let_def)
qed


lemmas fixture_chunks = chunk_a_def chunk_b_def chunk_c_def chunk_doc_def

lemma fixture_code_entries:
  "isCodeEntry fixture_env chunk_a" "isCodeEntry fixture_env chunk_b"
  "isCodeEntry fixture_env chunk_c" "\<not> isCodeEntry fixture_env chunk_doc"
  by (simp_all add: isCodeEntry_def fixture_env_def fixture_chunks code_extensions_def ascii_def)

lemma fixture_filter:
  "filter (isCodeEntry fixture_env) fixture_kb = [chunk_a, chunk_c, chunk_b]"
  by (simp add: fixture_kb_def fixture_code_entries)

lemma fixture_embed: "embed fixture_env wallet = Inr [1, 0]"
  by (simp add: fixture_env_def wallet_def ascii_def)

lemma fixture_cosine:
  "cosineSimilarity fixture_env [1, 0] (embedding chunk_a) = Inr 1"
  "cosineSimilarity fixture_env [1, 0] (embedding chunk_b) = Inr 1"
  "cosineSimilarity fixture_env [1, 0] (embedding chunk_c) = Inr 0"
  by (simp_all add: fixture_env_def cosine_def dot_def fixture_chunks)

lemma fixture_scores:
  "score_all fixture_env [1, 0] [chunk_a, chunk_c, chunk_b] = Inr [scored_a, scored_c, scored_b]"
  by (simp add: fixture_cosine scored_a_def scored_b_def scored_c_def)

lemma fixture_sorted:
  "sort_by by_similarity [scored_a, scored_c, scored_b] = [scored_a, scored_b, scored_c]"
  by (simp add: sort_by_def by_similarity_def scored_a_def scored_b_def scored_c_def)

lemma fixture_results_3:
  "relevantResults fixture_env fixture_kb wallet 3 = Inr [scored_a, scored_b, scored_c]"
  by (simp add: relevantResults_def fixture_filter fixture_embed fixture_scores fixture_sorted
        slice0_def del: score_all.simps)

lemma fixture_results_2:
  "relevantResults fixture_env fixture_kb wallet 2 = Inr [scored_a, scored_b]"
  by (simp add: relevantResults_def fixture_filter fixture_embed fixture_scores fixture_sorted
        slice0_def del: score_all.simps)

theorem relevantResults_limit_and_filter_witness:
  "relevantResults fixture_env fixture_kb wallet 3 = Inr [scored_a, scored_b, scored_c] \<and>
   (0::int) \<le> 3 \<and>
   int (length [scored_a, scored_b, scored_c]) \<le> 3 \<and>
   toLowerCase fixture_env (extname fixture_env
      (takeWhile (\<lambda>c. c \<noteq> 0x20) (source (metadata (document scored_c))))) = ascii ''.tsx'' \<and>
   type (metadata (document scored_c)) = ascii ''other'' \<and>
   type (metadata chunk_doc) = ascii ''code'' \<and> chunk_doc \<in> set fixture_kb \<and>
   chunk_doc \<notin> document ` set [scored_a, scored_b, scored_c]"
proof -
  have le: "(0::int) \<le> 3" by simp
  have "toLowerCase fixture_env (extname fixture_env
      (takeWhile (\<lambda>c. c \<noteq> 0x20) (source (metadata (document scored_c))))) = ascii ''.tsx''"
    by (simp add: scored_c_def chunk_c_def fixture_env_def ascii_def)
  moreover have "chunk_doc \<notin> document ` set [scored_a, scored_b, scored_c]"
    by (simp add: scored_a_def scored_b_def scored_c_def fixture_chunks ascii_def)
  ultimately show ?thesis
    using relevantResults_limit_and_filter [OF fixture_results_3 le] fixture_results_3
    by (simp add: scored_c_def chunk_c_def chunk_doc_def fixture_kb_def)
qed

lemma hd_filter: "xs \<noteq> [] \<Longrightarrow> P (hd xs) \<Longrightarrow> hd (filter P xs) = hd xs"
  by (cases xs) auto

lemma sorted_hd_max:
  "sorted_wrt (\<lambda>a b. similarity a \<ge> similarity b) xs \<Longrightarrow> x \<in> set xs \<Longrightarrow>
   similarity x \<le> similarity (hd xs)"
  by (cases xs) auto

text \<open>
  The cosine of the angle of two vectors over the reals, as defined with the fixtures:
  a vector that is not zero has similarity 1 to itself, and no similarity exceeds 1.
\<close>

lemma dot_self_nonneg: "0 \<le> dot u u"
  by (induction u) (simp_all add: dot_def)

lemma dot_Cons: "dot (x # u) (y # v) = x * y + dot u v"
  by (simp add: dot_def)

lemma square_sum_diff:
  fixes a b :: real
  shows "(a + b)\<^sup>2 = (a - b)\<^sup>2 + 4 * (a * b)"
  by (simp add: power2_sum power2_diff)

lemma four_mult_le_square:
  fixes a b :: real
  shows "4 * (a * b) \<le> (a + b)\<^sup>2"
proof -
  have "0 \<le> (a - b)\<^sup>2" by (rule zero_le_power2)
  also have "(a - b)\<^sup>2 = (a + b)\<^sup>2 - 4 * (a * b)" by (simp add: square_sum_diff)
  finally show ?thesis by (simp only: diff_ge_0_iff_ge)
qed

lemma two_mult_le_sum:
  fixes a b c :: real
  assumes "0 \<le> a" "0 \<le> b" "c\<^sup>2 \<le> a * b"
  shows "2 * c \<le> a + b"
proof -
  have "(2 * \<bar>c\<bar>)\<^sup>2 = 4 * c\<^sup>2" by (simp add: power_mult_distrib)
  also have "\<dots> \<le> 4 * (a * b)" using assms(3) by simp
  also have "\<dots> \<le> (a + b)\<^sup>2" by (rule four_mult_le_square)
  finally have sq: "(2 * \<bar>c\<bar>)\<^sup>2 \<le> (a + b)\<^sup>2" .
  have "2 * \<bar>c\<bar> \<le> a + b"
    by (rule power2_le_imp_le [OF sq]) (simp add: assms)
  then show ?thesis by linarith
qed

lemma cauchy_schwarz_step:
  fixes x y S A B :: real
  assumes "0 \<le> A" "0 \<le> B" "S\<^sup>2 \<le> A * B"
  shows "(x * y + S)\<^sup>2 \<le> (x * x + A) * (y * y + B)"
proof -
  have "(x * y * S)\<^sup>2 = (x * y)\<^sup>2 * S\<^sup>2" by (rule power_mult_distrib)
  also have "\<dots> \<le> (x * y)\<^sup>2 * (A * B)"
    using assms(3) by (rule mult_left_mono) simp
  also have "\<dots> = (x * x * B) * (y * y * A)" by (simp add: power2_eq_square)
  finally have sq: "(x * y * S)\<^sup>2 \<le> (x * x * B) * (y * y * A)" .
  have m: "2 * (x * y * S) \<le> x * x * B + y * y * A"
    by (rule two_mult_le_sum [OF _ _ sq]) (simp_all add: assms)
  have "(x * y + S)\<^sup>2 = x * x * (y * y) + 2 * (x * y * S) + S\<^sup>2"
    by (simp add: power2_eq_square distrib_left distrib_right)
  also have "\<dots> \<le> x * x * (y * y) + (x * x * B + y * y * A) + A * B"
    using m assms(3) by linarith
  also have "\<dots> = (x * x + A) * (y * y + B)"
    by (simp add: distrib_left distrib_right)
  finally show ?thesis .
qed

lemma cauchy_schwarz: "length u = length v \<Longrightarrow> (dot u v)\<^sup>2 \<le> dot u u * dot v v"
proof (induction u v rule: list_induct2)
  case Nil
  show ?case by (simp add: dot_def)
next
  case (Cons x u y v)
  show ?case
    unfolding dot_Cons
    by (rule cauchy_schwarz_step [OF dot_self_nonneg dot_self_nonneg Cons.IH])
qed

lemma dot_le_norms: "length u = length v \<Longrightarrow> dot u v \<le> sqrt (dot u u) * sqrt (dot v v)"
proof -
  assume len: "length u = length v"
  let ?n = "sqrt (dot u u) * sqrt (dot v v)"
  have n: "0 \<le> ?n" using dot_self_nonneg by simp
  have "?n\<^sup>2 = dot u u * dot v v"
    using dot_self_nonneg [of u] dot_self_nonneg [of v] by (simp add: power_mult_distrib)
  then have "(dot u v)\<^sup>2 \<le> ?n\<^sup>2"
    using cauchy_schwarz [OF len] by simp
  then have "\<bar>dot u v\<bar> \<le> ?n"
    using n by (simp add: abs_le_square_iff [symmetric])
  then show ?thesis by linarith
qed

lemma cosine_self: "dot q q \<noteq> 0 \<Longrightarrow> cosine q q = Inr 1"
  using dot_self_nonneg [of q] by (simp add: cosine_def)

lemma cosine_le_1: "cosine u v = Inr s \<Longrightarrow> s \<le> 1"
proof -
  assume c: "cosine u v = Inr s"
  then have len: "length u = length v"
    and s: "s = dot u v / (sqrt (dot u u) * sqrt (dot v v))"
    by (auto simp: cosine_def split: if_splits)
  let ?n = "sqrt (dot u u) * sqrt (dot v v)"
  have n: "0 \<le> ?n" using dot_self_nonneg by simp
  have le: "dot u v \<le> ?n" using len by (rule dot_le_norms)
  show ?thesis
  proof (cases "?n = 0")
    case True
    show ?thesis unfolding s True by simp
  next
    case False
    with n have "0 < ?n" by linarith
    with le show ?thesis unfolding s by simp
  qed
qed

lemma relevantResults_order:
  assumes "relevantResults e kb query maxResults = Inr results"
    and "embed e query = Inr q"
  shows "sorted_wrt (\<lambda>a b. similarity a \<ge> similarity b) results \<and>
         (\<forall>r\<in>set results. cosineSimilarity e q (embedding (document r)) = Inr (similarity r)) \<and>
         prefix (map document (filter (\<lambda>r. similarity r = k) results))
                (filter (\<lambda>d. cosineSimilarity e q (embedding d) = Inr k)
                   (filter (isCodeEntry e) kb)) \<and>
         (0 < maxResults \<and> filter (isCodeEntry e) kb = pre @ d # post \<and>
          cosineSimilarity e q (embedding d) = Inr s \<and>
          (\<forall>x\<in>set pre. \<forall>sx. cosineSimilarity e q (embedding x) = Inr sx \<longrightarrow> sx < s) \<and>
          (\<forall>x\<in>set post. \<forall>sx. cosineSimilarity e q (embedding x) = Inr sx \<longrightarrow> sx \<le> s)
          \<longrightarrow> results \<noteq> [] \<and> hd results = \<lparr>document = d, similarity = s\<rparr>)"
proof -
  let ?S = "\<lambda>rs. sort_by by_similarity rs"
  let ?cos = "\<lambda>x. cosineSimilarity e q (embedding x)"
  from assms obtain rs where rs: "score_all e q (filter (isCodeEntry e) kb) = Inr rs"
    and res: "results = slice0 maxResults (?S rs)"
    by (auto elim!: relevantResults_Inr)
  have docs: "map document rs = filter (isCodeEntry e) kb"
    and sims: "\<forall>r\<in>set rs. ?cos (document r) = Inr (similarity r)"
    using score_all_Inr [OF rs] by simp_all
  obtain n where n: "results = take n (?S rs)"
    using res slice0_take by metis
  have setS: "set (?S rs) = set rs" by (simp add: sort_by_similarity)
  have sub: "set results \<subseteq> set rs"
    using set_take_subset [of n "?S rs"] by (simp add: n setS)
  have 1: "sorted_wrt (\<lambda>a b. similarity a \<ge> similarity b) results"
    unfolding n by (rule sorted_wrt_take) (rule sort_by_similarity_sorted)
  have 2: "\<forall>r\<in>set results. ?cos (document r) = Inr (similarity r)"
    using sub sims by blast
  have "prefix (filter (\<lambda>r. similarity r = k) results) (filter (\<lambda>r. similarity r = k) rs)"
    using filter_take_prefix [of "\<lambda>r. similarity r = k" n "?S rs"]
    by (simp add: n sort_by_similarity_stable)
  then have "prefix (map document (filter (\<lambda>r. similarity r = k) results))
                    (map document (filter (\<lambda>r. similarity r = k) rs))"
    by (rule map_mono_prefix)
  then have 3: "prefix (map document (filter (\<lambda>r. similarity r = k) results))
                  (filter (\<lambda>d. ?cos d = Inr k) (filter (isCodeEntry e) kb))"
    using map_document_filter [OF sims, of k] docs by simp
  have 4: "results \<noteq> [] \<and> hd results = \<lparr>document = d, similarity = s\<rparr>"
    if pos: "0 < maxResults" and split: "filter (isCodeEntry e) kb = pre @ d # post"
      and sd: "?cos d = Inr s"
      and before: "\<forall>x\<in>set pre. \<forall>sx. ?cos x = Inr sx \<longrightarrow> sx < s"
      and after: "\<forall>x\<in>set post. \<forall>sx. ?cos x = Inr sx \<longrightarrow> sx \<le> s"
  proof -
    let ?rd = "\<lparr>document = d, similarity = s\<rparr>"
    from docs split obtain rpre r rpost where parts: "rs = rpre @ r # rpost"
      "map document rpre = pre" "document r = d" "map document rpost = post"
      by (auto simp: map_eq_append_conv map_eq_Cons_conv)
    have r: "r = ?rd"
      using sims parts(1,3) sd by (cases r) auto
    have lt: "similarity x < s" if "x \<in> set rpre" for x
    proof -
      have "document x \<in> set pre" using that parts(2) by auto
      moreover have "?cos (document x) = Inr (similarity x)" using that sims parts(1) by simp
      ultimately show ?thesis using before by blast
    qed
    have le: "similarity x \<le> s" if xin: "x \<in> set rs" for x
    proof -
      consider "x \<in> set rpre" | "x = r" | "x \<in> set rpost" using xin parts(1) by auto
      then show ?thesis
      proof cases
        case 1 then show ?thesis using lt by fastforce
      next
        case 2 then show ?thesis using r by simp
      next
        case 3
        then have "document x \<in> set post" using parts(4) by auto
        moreover have "?cos (document x) = Inr (similarity x)" using 3 sims parts(1) by simp
        ultimately show ?thesis using after by blast
      qed
    qed
    have ne: "?S rs \<noteq> []"
      using setS parts(1) by (metis empty_iff empty_set list.set_intros(1) in_set_conv_decomp)
    have "?rd \<in> set (?S rs)" using setS parts(1) r by simp
    then have "s \<le> similarity (hd (?S rs))"
      using sorted_hd_max [OF sort_by_similarity_sorted] by fastforce
    moreover have "hd (?S rs) \<in> set rs" using ne setS by (metis hd_in_set)
    ultimately have top: "similarity (hd (?S rs)) = s" using le by fastforce
    have "filter (\<lambda>x. similarity x = s) rpre = []"
      using lt by (auto simp: filter_empty_conv)
    then have "filter (\<lambda>x. similarity x = s) rs = ?rd # filter (\<lambda>x. similarity x = s) rpost"
      using parts(1) r by simp
    then have "hd (filter (\<lambda>x. similarity x = s) (?S rs)) = ?rd"
      by (simp add: sort_by_similarity_stable)
    then have "hd (?S rs) = ?rd"
      using hd_filter [OF ne, of "\<lambda>x. similarity x = s"] top by simp
    then show ?thesis
      using slice0_hd [OF pos ne] res by simp
  qed
  from 1 2 3 4 show ?thesis by blast
qed

lemma relevantResults_identical:
  assumes res: "relevantResults e kb query maxResults = Inr results"
    and q: "embed e query = Inr q"
    and pos: "0 < maxResults"
    and d: "d \<in> set kb" "isCodeEntry e d" "embedding d = q"
    and self: "cosineSimilarity e q q = Inr 1"
    and le: "\<forall>x\<in>set kb. \<forall>s. cosineSimilarity e q (embedding x) = Inr s \<longrightarrow> s \<le> 1"
  shows "results \<noteq> [] \<and> similarity (hd results) = 1 \<and>
         (\<exists>pre post. filter (isCodeEntry e) kb = pre @ document (hd results) # post \<and>
            (\<forall>x\<in>set pre. cosineSimilarity e q (embedding x) \<noteq> Inr 1) \<and>
            (document (hd results) = d \<or> d \<in> set post))"
proof -
  let ?cos = "\<lambda>x. cosineSimilarity e q (embedding x)"
  let ?code = "filter (isCodeEntry e) kb"
  have din: "d \<in> set ?code" using d by simp
  have ex: "\<exists>x\<in>set ?code. ?cos x = Inr 1" using din d(3) self by auto
  from split_list_first_prop [OF ex]
  obtain pre h post where split: "?code = pre @ h # post"
    and h: "?cos h = Inr 1" and pre: "\<forall>x\<in>set pre. ?cos x \<noteq> Inr 1"
    by blast
  have sub: "set pre \<subseteq> set kb" "set post \<subseteq> set kb"
  proof -
    have "set ?code \<subseteq> set kb" by auto
    then show "set pre \<subseteq> set kb" "set post \<subseteq> set kb" unfolding split by auto
  qed
  have before: "\<forall>x\<in>set pre. \<forall>sx. ?cos x = Inr sx \<longrightarrow> sx < 1"
    using pre le sub(1) by (metis less_eq_real_def subsetD)
  have after: "\<forall>x\<in>set post. \<forall>sx. ?cos x = Inr sx \<longrightarrow> sx \<le> 1"
    using le sub(2) by blast
  have first: "results \<noteq> [] \<and> hd results = \<lparr>document = h, similarity = 1\<rparr>"
    using relevantResults_order [OF res q, of _ pre h post 1] pos split h before after
    by blast
  then have hd: "document (hd results) = h" "similarity (hd results) = 1" by simp_all
  have "d = h \<or> d \<in> set post"
    using din pre d(3) self unfolding split by auto
  with first hd split pre show ?thesis by auto
qed

text \<open>
  C6, as the code has it. The results are in order of similarity to the embedding of the
  query, the greatest first, and chunks of equal similarity keep the order they have in the
  knowledge base: for each value, the results of that similarity are the first code chunks
  of that similarity, in insertion order. When the embedding of the query is that of a
  stored code chunk and the limit is at least one, the first result has similarity 1 and
  is the earliest code chunk of similarity 1: that chunk itself, or a code chunk inserted
  before it that ties with it. Two facts about \<open>cosineSimilarity\<close> of the \<open>ai\<close> package
  are taken as hypotheses: it gives 1 for the embedding of the query against itself, and
  never more than 1 against a stored embedding. They hold of the cosine over the reals
  for a query embedding that is not zero (\<open>cosine_self\<close>, \<open>cosine_le_1\<close>); in floating
  point they hold up to rounding, which is not modelled.
\<close>

theorem relevantResults_ranking:
  assumes "relevantResults e kb query maxResults = Inr results"
    and "embed e query = Inr q"
  shows "sorted_wrt (\<lambda>a b. similarity a \<ge> similarity b) results \<and>
         (\<forall>r\<in>set results. cosineSimilarity e q (embedding (document r)) = Inr (similarity r)) \<and>
         prefix (map document (filter (\<lambda>r. similarity r = k) results))
                (filter (\<lambda>d. cosineSimilarity e q (embedding d) = Inr k)
                   (filter (isCodeEntry e) kb)) \<and>
         (0 < maxResults \<and> d \<in> set kb \<and> isCodeEntry e d \<and> embedding d = q \<and>
          cosineSimilarity e q q = Inr 1 \<and>
          (\<forall>x\<in>set kb. \<forall>s. cosineSimilarity e q (embedding x) = Inr s \<longrightarrow> s \<le> 1)
          \<longrightarrow> results \<noteq> [] \<and> similarity (hd results) = 1 \<and>
              (\<exists>pre post.
                 filter (isCodeEntry e) kb = pre @ document (hd results) # post \<and>
                 (\<forall>x\<in>set pre. cosineSimilarity e q (embedding x) \<noteq> Inr 1) \<and>
                 (document (hd results) = d \<or> d \<in> set post)))"
proof -
  note order = relevantResults_order [OF assms, of k "[]" d "[]" 1]
  have 1: "sorted_wrt (\<lambda>a b. similarity a \<ge> similarity b) results"
    using order by (rule conjunct1)
  have 2: "\<forall>r\<in>set results. cosineSimilarity e q (embedding (document r)) = Inr (similarity r)"
    using order by blast
  have 3: "prefix (map document (filter (\<lambda>r. similarity r = k) results))
                (filter (\<lambda>d. cosineSimilarity e q (embedding d) = Inr k)
                   (filter (isCodeEntry e) kb))"
    using order by blast
  have 4: "results \<noteq> [] \<and> similarity (hd results) = 1 \<and>
              (\<exists>pre post.
                 filter (isCodeEntry e) kb = pre @ document (hd results) # post \<and>
                 (\<forall>x\<in>set pre. cosineSimilarity e q (embedding x) \<noteq> Inr 1) \<and>
                 (document (hd results) = d \<or> d \<in> set post))"
    if "0 < maxResults" "d \<in> set kb" "isCodeEntry e d" "embedding d = q"
      "cosineSimilarity e q q = Inr 1"
      "\<forall>x\<in>set kb. \<forall>s. cosineSimilarity e q (embedding x) = Inr s \<longrightarrow> s \<le> 1"
    using relevantResults_identical [OF assms that] .
  from 1 2 3 4 show ?thesis by blast
qed

lemma fixture_cosine_doc: "cosineSimilarity fixture_env [1, 0] (embedding chunk_doc) = Inr 1"
  by (simp add: fixture_env_def cosine_def dot_def chunk_doc_def)

theorem relevantResults_ranking_witness:
  "relevantResults fixture_env fixture_kb wallet 2 = Inr [scored_a, scored_b] \<and>
   embed fixture_env wallet = Inr [1, 0] \<and>
   sorted_wrt (\<lambda>a b. similarity a \<ge> similarity b) [scored_a, scored_b] \<and>
   prefix (map document (filter (\<lambda>r. similarity r = 1) [scored_a, scored_b]))
          (filter (\<lambda>d. cosineSimilarity fixture_env [1, 0] (embedding d) = Inr 1)
             (filter (isCodeEntry fixture_env) fixture_kb)) \<and>
   (0::int) < 2 \<and> chunk_b \<in> set fixture_kb \<and> isCodeEntry fixture_env chunk_b \<and>
   embedding chunk_b = [1, 0] \<and>
   cosineSimilarity fixture_env [1, 0] [1, 0] = Inr 1 \<and>
   cosineSimilarity fixture_env [1, 0] (embedding chunk_doc) = Inr 1 \<and>
   cosineSimilarity fixture_env [1, 0] (embedding chunk_a) = Inr 1 \<and>
   cosineSimilarity fixture_env [1, 0] (embedding chunk_c) = Inr 0 \<and>
   cosineSimilarity fixture_env [1, 0] (embedding chunk_b) = Inr 1 \<and>
   similarity (hd [scored_a, scored_b]) = 1 \<and>
   filter (isCodeEntry fixture_env) fixture_kb =
     [] @ document (hd [scored_a, scored_b]) # [chunk_c, chunk_b] \<and>
   chunk_b \<in> set [chunk_c, chunk_b]"
proof -
  have self: "cosineSimilarity fixture_env [1, 0] [1, 0] = Inr 1"
    by (simp add: fixture_env_def cosine_def dot_def)
  have le: "\<forall>x\<in>set fixture_kb. \<forall>s.
              cosineSimilarity fixture_env [1, 0] (embedding x) = Inr s \<longrightarrow> s \<le> 1"
    by (auto simp: fixture_env_def dest: cosine_le_1)
  have b: "chunk_b \<in> set fixture_kb" "embedding chunk_b = [1, 0]"
    by (simp_all add: fixture_kb_def chunk_b_def)
  have pos: "(0::int) < 2" by simp
  note rank = relevantResults_ranking [OF fixture_results_2 fixture_embed, of 1 chunk_b]
  have "similarity (hd [scored_a, scored_b]) = 1"
    using rank pos b fixture_code_entries(2) self le by blast
  moreover have "filter (isCodeEntry fixture_env) fixture_kb =
     [] @ document (hd [scored_a, scored_b]) # [chunk_c, chunk_b]"
    by (simp add: fixture_filter scored_a_def)
  moreover have "sorted_wrt (\<lambda>a b. similarity a \<ge> similarity b) [scored_a, scored_b]"
    using rank by (rule conjunct1)
  moreover have "prefix (map document (filter (\<lambda>r. similarity r = 1) [scored_a, scored_b]))
          (filter (\<lambda>d. cosineSimilarity fixture_env [1, 0] (embedding d) = Inr 1)
             (filter (isCodeEntry fixture_env) fixture_kb))"
    using rank by blast
  ultimately show ?thesis
    using fixture_results_2 fixture_embed pos b fixture_code_entries(2) self fixture_cosine
      fixture_cosine_doc
    by simp
qed

lemma fixture_results_doc:
  "relevantResults fixture_env [chunk_doc, chunk_c] wallet 5 = Inr [scored_c]"
  by (simp add: relevantResults_def fixture_code_entries fixture_embed fixture_cosine
        scored_c_def sort_by_def slice0_def)

text \<open>
  C6, as the claim states it, fails: a stored chunk whose source is not a code file is
  filtered out before the ranking. Here the embedding of the query is that of the stored
  chunk of \<open>README.md\<close>, and the first and only result is another chunk, of similarity 0.
\<close>

theorem identical_noncode_chunk_counterexample:
  "embed fixture_env wallet = Inr (embedding chunk_doc) \<and>
   chunk_doc \<in> set [chunk_doc, chunk_c] \<and>
   relevantResults fixture_env [chunk_doc, chunk_c] wallet 5 = Inr [scored_c] \<and>
   document (hd [scored_c]) \<noteq> chunk_doc \<and>
   similarity (hd [scored_c]) = 0"
  by (simp add: fixture_results_doc fixture_embed)
     (simp add: scored_c_def fixture_chunks ascii_def)

section \<open>Properties of the incremental update\<close>

lemma added_from_refl: "added_from P st st"
  by (simp add: added_from_def)

lemma added_from_trans:
  "added_from P st st' \<Longrightarrow> added_from Q st' st'' \<Longrightarrow> added_from (P \<union> Q) st st''"
  unfolding added_from_def by (elim conjE exE) (rule conjI, simp, rule conjI, simp, fastforce)

lemma added_from_mono: "added_from P st st' \<Longrightarrow> P \<subseteq> Q \<Longrightarrow> added_from Q st st'"
  unfolding added_from_def by blast

lemma addToKnowledgeBase_added:
  "prefix p (source md) \<Longrightarrow> added_from {p} st (snd (addToKnowledgeBase e c md st))"
  by (auto simp: addToKnowledgeBase_def added_from_def split: sum.splits)

lemma add_parts_added:
  "added_from {p} st (snd (add_parts e p ft chunks i n st))"
proof (induction chunks arbitrary: i st)
  case Nil
  show ?case by (simp add: added_from_refl)
next
  case (Cons chunk chunks)
  let ?md = "\<lparr>source = part_source p i n, type = ft\<rparr>"
  obtain out st1 where a: "addToKnowledgeBase e chunk ?md st = (out, st1)"
    by (cases "addToKnowledgeBase e chunk ?md st") auto
  have "prefix p (source ?md)" by (simp add: part_source_def)
  then have 1: "added_from {p} st st1"
    using addToKnowledgeBase_added [of p ?md st e chunk] a by simp
  show ?case
  proof (cases out)
    case Returned
    have "added_from ({p} \<union> {p}) st (snd (add_parts e p ft chunks (i + 1) n st1))"
      using 1 Cons.IH by (rule added_from_trans)
    with a Returned show ?thesis by simp
  next
    case (Threw err)
    with a 1 show ?thesis by simp
  qed
qed

lemma process_changed_file_added:
  "added_from {p} st (fst (snd (process_changed_file e full p st)))"
proof (cases "readFileSync (fs st) full")
  case (Inl err)
  then show ?thesis by (simp add: process_changed_file_def added_from_refl)
next
  case (Inr body)
  let ?ext = "toLowerCase e (extname e p)"
  let ?ft = "determineFileType ?ext"
  show ?thesis
  proof (cases "?ext \<in> set supported_extensions")
    case False
    with Inr show ?thesis by (simp add: process_changed_file_def added_from_refl)
  next
    case True
    let ?r = "if int (length body) > MAX_CHUNK_SIZE
              then (let chunks = chunkText body MAX_CHUNK_SIZE
                    in add_parts e p ?ft chunks 0 (length chunks) st)
              else addToKnowledgeBase e body \<lparr>source = p, type = ?ft\<rparr> st"
    have "added_from {p} st (snd ?r)"
      using add_parts_added [of p st e ?ft] addToKnowledgeBase_added [of p "\<lparr>source = p, type = ?ft\<rparr>" st e body]
      by (simp add: Let_def)
    moreover have "fst (snd (process_changed_file e full p st)) = snd ?r"
      using Inr True
      by (cases ?r; cases "fst ?r") (auto simp: process_changed_file_def Let_def)
    ultimately show ?thesis by simp
  qed
qed

lemma update_file_missing:
  "\<not> existsSync (fs st) (path_join e (repoPath a) p) \<Longrightarrow> update_file e a p (st, u) = (st, u)"
  by (simp add: update_file_def)

lemma update_file_added:
  "added_from {p} st (fst (update_file e a p (st, u)))"
proof -
  let ?full = "path_join e (repoPath a) p"
  show ?thesis
  proof (cases "excluded_path p \<or> \<not> existsSync (fs st) ?full")
    case True
    then show ?thesis by (auto simp: update_file_def added_from_refl)
  next
    case False
    obtain out st' u' where r: "process_changed_file e ?full p st = (out, st', u')"
      by (cases "process_changed_file e ?full p st") auto
    have "added_from {p} st st'" using process_changed_file_added [of p st e ?full] r by simp
    with False r show ?thesis by (cases out) (simp_all add: update_file_def)
  qed
qed

lemma update_file_exists_added:
  "added_from {p. p = q \<and> existsSync (fs st) (path_join e (repoPath a) p)} st
     (fst (update_file e a q (st, u)))"
proof (cases "existsSync (fs st) (path_join e (repoPath a) q)")
  case True
  then have "{p. p = q \<and> existsSync (fs st) (path_join e (repoPath a) p)} = {q}" by auto
  then show ?thesis using update_file_added [of q st e a u] by simp
next
  case False
  then show ?thesis by (simp add: update_file_missing added_from_refl)
qed

lemma update_loop_added:
  "added_from {p \<in> set files. existsSync (fs st) (path_join e (repoPath a) p)} st
     (fst (update_loop e a files (st, u)))"
proof (induction files arbitrary: st u)
  case Nil
  show ?case by (simp add: added_from_refl)
next
  case (Cons q files)
  obtain st1 u1 where s: "update_file e a q (st, u) = (st1, u1)"
    by (cases "update_file e a q (st, u)") auto
  have 1: "added_from {p. p = q \<and> existsSync (fs st) (path_join e (repoPath a) p)} st st1"
    using update_file_exists_added [of q st e a u] s by simp
  then have f: "fs st1 = fs st" by (simp add: added_from_def)
  have 2: "added_from {p \<in> set files. existsSync (fs st) (path_join e (repoPath a) p)} st1
             (fst (update_loop e a files (st1, u1)))"
    using Cons.IH [of st1 u1] f by simp
  have "added_from ({p. p = q \<and> existsSync (fs st) (path_join e (repoPath a) p)} \<union>
                    {p \<in> set files. existsSync (fs st) (path_join e (repoPath a) p)}) st
          (fst (update_loop e a files (st1, u1)))"
    using 1 2 by (rule added_from_trans)
  then show ?case
    using s by (auto elim!: added_from_mono)
qed

lemma update_loop_filter:
  "update_loop e a files (st, u) =
   update_loop e a (filter (\<lambda>p. existsSync (fs st) (path_join e (repoPath a) p)) files) (st, u)"
proof (induction files arbitrary: st u)
  case Nil
  show ?case by simp
next
  case (Cons q files)
  show ?case
  proof (cases "existsSync (fs st) (path_join e (repoPath a) q)")
    case False
    then show ?thesis using Cons.IH [of st u] by (simp add: update_file_missing)
  next
    case True
    obtain st1 u1 where s: "update_file e a q (st, u) = (st1, u1)"
      by (cases "update_file e a q (st, u)") auto
    have "fs st1 = fs st"
      using update_file_added [of q st e a u] s by (simp add: added_from_def)
    then show ?thesis using True s Cons.IH [of st1 u1] by simp
  qed
qed

lemma update_loop_all_missing:
  "\<forall>p\<in>set files. \<not> existsSync (fs st) (path_join e (repoPath a) p) \<Longrightarrow>
   update_loop e a files (st, u) = (st, u)"
  by (induction files) (simp_all add: update_file_missing)

lemma saveKnowledgeBase_frame:
  "knowledgeBase (snd (saveKnowledgeBase e p st)) = knowledgeBase st"
  by (auto simp: saveKnowledgeBase_def console_log_def Let_def split: sum.splits)

lemma saveKnowledgeBase_returns:
  "writeFileSync (fs st) p (JSON_stringify e (knowledgeBase st)) = Inr d \<Longrightarrow>
   fst (saveKnowledgeBase e p st) = Returned"
  by (cases "knowledgeBase st = []")
     (simp_all add: saveKnowledgeBase_empty saveKnowledgeBase_write)

text \<open>
  C9. Whatever the list of changed files, the chunks of the knowledge base before
  \<open>updateKnowledgeBase\<close> are still its first chunks afterwards, unchanged and in place, and
  every chunk added has a source that starts with a listed path that exists on disk. A
  listed path that does not exist has no effect at all: the call does what it does on the
  list without such paths; when no listed path exists it returns normally and leaves the
  state as it was. Nothing but the final \<open>fs.writeFileSync\<close> can make the call throw:
  when writing the resulting store to the snapshot location succeeds on the disk, the call
  returns normally.
\<close>

theorem updateKnowledgeBase_missing_path:
  "prefix (knowledgeBase st) (knowledgeBase (snd (updateKnowledgeBase e a changedFiles st))) \<and>
   (\<forall>c\<in>set (drop (length (knowledgeBase st))
                (knowledgeBase (snd (updateKnowledgeBase e a changedFiles st)))).
      \<exists>p\<in>set changedFiles.
        existsSync (fs st) (path_join e (repoPath a) p) \<and> prefix p (source (metadata c))) \<and>
   updateKnowledgeBase e a changedFiles st =
     updateKnowledgeBase e a
       (filter (\<lambda>p. existsSync (fs st) (path_join e (repoPath a) p)) changedFiles) st \<and>
   ((\<forall>p\<in>set changedFiles. \<not> existsSync (fs st) (path_join e (repoPath a) p)) \<longrightarrow>
      updateKnowledgeBase e a changedFiles st = (Returned, st)) \<and>
   (writeFileSync (fs st) (knowledgeBasePath a)
      (JSON_stringify e (knowledgeBase (snd (updateKnowledgeBase e a changedFiles st)))) = Inr d
    \<longrightarrow> fst (updateKnowledgeBase e a changedFiles st) = Returned)"
proof -
  let ?ex = "\<lambda>p. existsSync (fs st) (path_join e (repoPath a) p)"
  obtain st1 u1 where l: "update_loop e a changedFiles (st, False) = (st1, u1)"
    by (cases "update_loop e a changedFiles (st, False)") auto
  have inv: "added_from {p \<in> set changedFiles. ?ex p} st st1"
    using update_loop_added [of changedFiles st e a False] l by simp
  then obtain added where added: "knowledgeBase st1 = knowledgeBase st @ added"
    "\<forall>c\<in>set added. \<exists>p\<in>set changedFiles. ?ex p \<and> prefix p (source (metadata c))"
    and fs1: "fs st1 = fs st"
    unfolding added_from_def by blast
  let ?st' = "snd (updateKnowledgeBase e a changedFiles st)"
  have kb: "knowledgeBase ?st' = knowledgeBase st \<or> knowledgeBase ?st' = knowledgeBase st1"
    using l by (simp add: updateKnowledgeBase_def saveKnowledgeBase_frame)
  have 1: "prefix (knowledgeBase st) (knowledgeBase ?st')"
    using kb added(1) by auto
  have 2: "\<forall>c\<in>set (drop (length (knowledgeBase st)) (knowledgeBase ?st')).
             \<exists>p\<in>set changedFiles. ?ex p \<and> prefix p (source (metadata c))"
    using kb added by auto
  have 3: "updateKnowledgeBase e a changedFiles st =
           updateKnowledgeBase e a (filter ?ex changedFiles) st"
    using update_loop_filter [of e a changedFiles st False]
    by (simp add: updateKnowledgeBase_def)
  have 4: "updateKnowledgeBase e a changedFiles st = (Returned, st)"
    if "\<forall>p\<in>set changedFiles. \<not> ?ex p"
    using update_loop_all_missing [OF that, of False]
    by (simp add: updateKnowledgeBase_def)
  have 5: "fst (updateKnowledgeBase e a changedFiles st) = Returned"
    if w: "writeFileSync (fs st) (knowledgeBasePath a)
             (JSON_stringify e (knowledgeBase ?st')) = Inr d"
  proof (cases "existsSync (fs st) (repoPath a) \<and> u1")
    case False
    with l show ?thesis by (auto simp: updateKnowledgeBase_def)
  next
    case True
    with l have "?st' = snd (saveKnowledgeBase e (knowledgeBasePath a) st1)"
      by (simp add: updateKnowledgeBase_def)
    then have "knowledgeBase ?st' = knowledgeBase st1"
      by (simp add: saveKnowledgeBase_frame)
    with w fs1 have "fst (saveKnowledgeBase e (knowledgeBasePath a) st1) = Returned"
      using saveKnowledgeBase_returns [of st1 "knowledgeBasePath a" e d] by simp
    with l True show ?thesis by (simp add: updateKnowledgeBase_def)
  qed
  from 1 2 3 4 5 show ?thesis by blast
qed

lemma fixture_update_file_a:
  "update_file fixture_env fixture_agent a_path (repo_state, False) =
     (repo_state\<lparr>knowledgeBase := [chunk_b, chunk_a]\<rparr>, True)"
  by (simp add: update_file_def excluded_path_def a_path_def fixture_agent_def fixture_env_def
        repo_state_def existsSync_def process_changed_file_def readFileSync_def
        supported_extensions_def determineFileType_def addToKnowledgeBase_def MAX_CHUNK_SIZE_def
        chunk_a_def ascii_def Let_def)

lemma fixture_gone: "\<not> existsSync (fs repo_state) (path_join fixture_env (repoPath fixture_agent) gone_path)"
  by (simp add: existsSync_def repo_state_def fixture_env_def fixture_agent_def gone_path_def
        ascii_def)

lemma fixture_update:
  "updateKnowledgeBase fixture_env fixture_agent [gone_path, a_path] repo_state =
     (Returned,
      repo_state\<lparr>knowledgeBase := [chunk_b, chunk_a],
                 fs := (fs repo_state)(snapshot_path \<mapsto> File (ascii ''[b, a]'')),
                 console := [Saving snapshot_path, SaveStats 2 snapshot_path]\<rparr>)"
proof -
  have "existsSync (fs repo_state) (repoPath fixture_agent)"
    by (simp add: existsSync_def repo_state_def fixture_agent_def)
  moreover have "update_loop fixture_env fixture_agent [gone_path, a_path] (repo_state, False) =
     (repo_state\<lparr>knowledgeBase := [chunk_b, chunk_a]\<rparr>, True)"
    using fixture_gone by (simp add: update_file_missing fixture_update_file_a)
  moreover have "saveKnowledgeBase fixture_env snapshot_path
       (repo_state\<lparr>knowledgeBase := [chunk_b, chunk_a]\<rparr>) =
     (Returned,
      repo_state\<lparr>knowledgeBase := [chunk_b, chunk_a],
                 fs := (fs repo_state)(snapshot_path \<mapsto> File (ascii ''[b, a]'')),
                 console := [Saving snapshot_path, SaveStats 2 snapshot_path]\<rparr>)"
    by (simp add: saveKnowledgeBase_def console_log_def writeFileSync_def dirname_def
          repo_state_def fixture_env_def snapshot_path_def fixture_chunks ascii_def)
  ultimately show ?thesis
    by (simp add: updateKnowledgeBase_def fixture_agent_def)
qed

theorem updateKnowledgeBase_missing_path_witness:
  "\<not> existsSync (fs repo_state) (path_join fixture_env (repoPath fixture_agent) gone_path) \<and>
   knowledgeBase repo_state = [chunk_b] \<and>
   knowledgeBase (snd (updateKnowledgeBase fixture_env fixture_agent [gone_path, a_path] repo_state))
     = [chunk_b, chunk_a] \<and>
   prefix gone_path (source (metadata chunk_a)) = False \<and>
   updateKnowledgeBase fixture_env fixture_agent [gone_path, a_path] repo_state =
     updateKnowledgeBase fixture_env fixture_agent [a_path] repo_state \<and>
   updateKnowledgeBase fixture_env fixture_agent [gone_path] repo_state = (Returned, repo_state) \<and>
   writeFileSync (fs repo_state) (knowledgeBasePath fixture_agent)
     (JSON_stringify fixture_env [chunk_b, chunk_a]) =
     Inr ((fs repo_state)(snapshot_path \<mapsto> File (ascii ''[b, a]''))) \<and>
   fst (updateKnowledgeBase fixture_env fixture_agent [gone_path, a_path] repo_state) = Returned"
proof -
  have kb: "knowledgeBase
      (snd (updateKnowledgeBase fixture_env fixture_agent [gone_path, a_path] repo_state))
     = [chunk_b, chunk_a]"
    by (simp add: fixture_update)
  have w: "writeFileSync (fs repo_state) (knowledgeBasePath fixture_agent)
     (JSON_stringify fixture_env [chunk_b, chunk_a]) =
     Inr ((fs repo_state)(snapshot_path \<mapsto> File (ascii ''[b, a]'')))"
    by (simp add: writeFileSync_def dirname_def repo_state_def fixture_agent_def fixture_env_def
          snapshot_path_def fixture_chunks ascii_def)
  have a: "existsSync (fs repo_state) (path_join fixture_env (repoPath fixture_agent) a_path)"
    by (simp add: existsSync_def repo_state_def fixture_env_def fixture_agent_def a_path_def
          ascii_def)
  have p: "prefix gone_path (source (metadata chunk_a)) = False"
    by (simp add: gone_path_def chunk_a_def ascii_def)
  have k: "knowledgeBase repo_state = [chunk_b]" by (simp add: repo_state_def)
  note both = updateKnowledgeBase_missing_path
                [where st = repo_state and e = fixture_env and a = fixture_agent
                   and changedFiles = "[gone_path, a_path]"
                   and d = "(fs repo_state)(snapshot_path \<mapsto> File (ascii ''[b, a]''))"]
  note none = updateKnowledgeBase_missing_path
                [where st = repo_state and e = fixture_env and a = fixture_agent
                   and changedFiles = "[gone_path]"]
  have same: "updateKnowledgeBase fixture_env fixture_agent [gone_path, a_path] repo_state =
     updateKnowledgeBase fixture_env fixture_agent [a_path] repo_state"
    using both [THEN conjunct2, THEN conjunct2, THEN conjunct1] fixture_gone a by simp
  have noop: "updateKnowledgeBase fixture_env fixture_agent [gone_path] repo_state
                = (Returned, repo_state)"
    using none [THEN conjunct2, THEN conjunct2, THEN conjunct2, THEN conjunct1] fixture_gone
    by simp
  have ret: "fst (updateKnowledgeBase fixture_env fixture_agent [gone_path, a_path] repo_state)
               = Returned"
    using both [THEN conjunct2, THEN conjunct2, THEN conjunct2, THEN conjunct2] w kb by simp
  from fixture_gone k kb p same noop w ret show ?thesis by blast
qed

end
